theory Spec2Isabelle
  imports Main
begin

section \<open>The hyperparameter searcher: data model\<close>

text \<open>
  A shallow embedding of \<^verbatim>\<open>HyperparameterSearcher\<close>
  (\<^verbatim>\<open>hyperparameter_searcher.py\<close>).

  Python exceptions are values of \<open>pyerror\<close>. The payload of an
  \<open>AssertionError\<close> is the list of problems the \<^verbatim>\<open>assert\<close> statement passes
  as its message (empty for a bare \<^verbatim>\<open>assert\<close>):
  \<^item> \<open>NotHyperparameters S\<close> is the text \<^verbatim>\<open>f'{default_errors} are not hyperparameters'\<close>,
  \<^item> \<open>CallError name msg\<close> is \<^verbatim>\<open>f'{hyp_name} call error: {ex}'\<close>,
  \<^item> \<open>NRepError n_rep n k\<close> is
    \<^verbatim>\<open>f'Error: n_rep=={n_rep} when n={n} and len(interest)={len(interests)}'\<close>.
  \<open>Raised msg\<close> is an exception (a subclass of \<^verbatim>\<open>Exception\<close>) raised by a user
  supplied callable, \<open>msg\<close> being its \<^verbatim>\<open>str\<close>.
\<close>

type_synonym addr = nat

datatype problem =
    NotHyperparameters "string set"
  | CallError string string
  | NRepError int int nat

datatype pyerror =
    AssertionError "problem list"
  | NameError string
  | KeyError string
  | IndexError
  | ValueError
  | ZeroDivisionError
  | TypeError string
  | Raised string

datatype warning =
    NoDefaultValues "string set"
  | MissingDefault string

text \<open>
  A hyperparameter generator is a list, a callable, or any other value
  (\<^verbatim>\<open>isinstance(generator, list)\<close>, \<^verbatim>\<open>callable(generator)\<close>, else). A list is
  a reference to a list object of the heap: Python lists are mutable and shared, and
  \<^verbatim>\<open>hyperparams.copy()\<close> is a shallow copy. A callable acts on the external state
  \<open>'w\<close> (the random source, iterators, whatever it closes over) and either raises
  or returns a value.
\<close>

datatype ('v, 'w) generator =
    Candidates addr
  | Factory "'w \<Rightarrow> (string + 'v) \<times> 'w"
  | FixedValue 'v

text \<open>
  The program state: the two attributes of the searcher object, the heap of list
  objects with its allocation pointer, the external state seen by callables, and the
  warnings issued so far.
\<close>

record ('v, 'w) state =
  hyperparams :: "(string \<times> ('v, 'w) generator) list"
  hyp_defaults :: "(string \<times> 'v) list"
  lists :: "addr \<Rightarrow> 'v list"
  next_addr :: addr
  ext :: 'w
  warned :: "warning list"

type_synonym ('a, 's) py = "'s \<Rightarrow> (pyerror + 'a) \<times> 's"

definition py_return :: "'a \<Rightarrow> ('a, 's) py" where
  "py_return x s = (Inr x, s)"

definition py_raise :: "pyerror \<Rightarrow> ('a, 's) py" where
  "py_raise e s = (Inl e, s)"

definition py_bind :: "('a, 's) py \<Rightarrow> ('a \<Rightarrow> ('b, 's) py) \<Rightarrow> ('b, 's) py" where
  "py_bind m f s = (case m s of (Inl e, s') \<Rightarrow> (Inl e, s') | (Inr x, s') \<Rightarrow> f x s')"

text \<open>A list comprehension \<^verbatim>\<open>[f(x) for x in xs]\<close> whose body has effects.\<close>

fun py_map :: "('a \<Rightarrow> ('b, 's) py) \<Rightarrow> 'a list \<Rightarrow> ('b list, 's) py" where
  "py_map f [] = py_return []"
| "py_map f (x # xs) = py_bind (f x) (\<lambda>y. py_bind (py_map f xs) (\<lambda>ys. py_return (y # ys)))"

text \<open>A \<^verbatim>\<open>for x in xs:\<close> loop that updates the local variables \<open>acc\<close>.\<close>

fun py_for :: "'a list \<Rightarrow> ('a \<Rightarrow> 'b \<Rightarrow> ('b, 's) py) \<Rightarrow> 'b \<Rightarrow> ('b, 's) py" where
  "py_for [] body acc = py_return acc"
| "py_for (x # xs) body acc = py_bind (body x acc) (py_for xs body)"

text \<open>\<^verbatim>\<open>range(n)\<close>: empty when \<open>n \<le> 0\<close>.\<close>

definition py_range :: "int \<Rightarrow> nat list" where
  "py_range n = [0..<nat n]"

subsection \<open>Dictionaries and lists\<close>

text \<open>
  A dictionary is an association list in insertion order. \<^verbatim>\<open>d[k] = v\<close> replaces
  the value of an existing key in place and appends a new key at the end;
  \<^verbatim>\<open>d[k]\<close> raises \<^verbatim>\<open>KeyError\<close> on a missing key; \<^verbatim>\<open>dict(pairs)\<close> stores the
  pairs one after the other.
\<close>

fun setitem :: "(string \<times> 'a) list \<Rightarrow> string \<Rightarrow> 'a \<Rightarrow> (string \<times> 'a) list" where
  "setitem [] k v = [(k, v)]"
| "setitem ((k', v') # d) k v = (if k' = k then (k, v) # d else (k', v') # setitem d k v)"

definition getitem :: "(string \<times> 'a) list \<Rightarrow> string \<Rightarrow> ('a, 's) py" where
  "getitem d k = (case map_of d k of None \<Rightarrow> py_raise (KeyError k) | Some v \<Rightarrow> py_return v)"

definition dict :: "(string \<times> 'a) list \<Rightarrow> (string \<times> 'a) list" where
  "dict pairs = fold (\<lambda>(k, v) d. setitem d k v) pairs []"

text \<open>\<^verbatim>\<open>xs[i]\<close> on a list: a negative index counts from the end.\<close>

definition getitem_list :: "'a list \<Rightarrow> int \<Rightarrow> ('a, 's) py" where
  "getitem_list xs i =
     (if 0 \<le> i \<and> i < int (length xs) then py_return (xs ! nat i)
      else if i < 0 \<and> - int (length xs) \<le> i then py_return (xs ! nat (int (length xs) + i))
      else py_raise IndexError)"

text \<open>\<^verbatim>\<open>result_search[i][hyp_name] = value\<close> for an index \<open>i \<ge> 0\<close>.\<close>

definition setitem_at ::
  "(string \<times> 'a) list list \<Rightarrow> nat \<Rightarrow> string \<Rightarrow> 'a \<Rightarrow> ((string \<times> 'a) list list, 's) py" where
  "setitem_at result_search i k v =
     (if i < length result_search
      then py_return (result_search[i := setitem (result_search ! i) k v])
      else py_raise IndexError)"

text \<open>\<^verbatim>\<open>xs.index(v)\<close>: the first position of \<open>v\<close>, \<^verbatim>\<open>ValueError\<close> when absent.\<close>

fun index :: "'a list \<Rightarrow> 'a \<Rightarrow> nat option" where
  "index [] v = None"
| "index (x # xs) v = (if x = v then Some 0 else map_option Suc (index xs v))"

text \<open>\<^verbatim>\<open>xs.pop(i)\<close> for a position \<open>i\<close> of the list: the list without it.\<close>

definition pop :: "'a list \<Rightarrow> nat \<Rightarrow> 'a list" where
  "pop xs i = take i xs @ drop (Suc i) xs"

subsection \<open>Heap and callables\<close>

text \<open>\<^verbatim>\<open>list(xs)\<close>: a new list object with the elements of the object at \<open>a\<close>.\<close>

definition list_copy :: "addr \<Rightarrow> (addr, ('v, 'w) state) py" where
  "list_copy a s =
     (Inr (next_addr s),
      s\<lparr>lists := (lists s)(next_addr s := lists s a), next_addr := Suc (next_addr s)\<rparr>)"

definition list_write :: "addr \<Rightarrow> 'v list \<Rightarrow> (unit, ('v, 'w) state) py" where
  "list_write a xs s = (Inr (), s\<lparr>lists := (lists s)(a := xs)\<rparr>)"

text \<open>Calling a callable with no argument.\<close>

definition call :: "('w \<Rightarrow> (string + 'v) \<times> 'w) \<Rightarrow> ('v, ('v, 'w) state) py" where
  "call f s =
     (case f (ext s) of
        (Inl msg, e) \<Rightarrow> (Inl (Raised msg), s\<lparr>ext := e\<rparr>)
      | (Inr v, e) \<Rightarrow> (Inr v, s\<lparr>ext := e\<rparr>))"

definition warn :: "warning \<Rightarrow> (unit, ('v, 'w) state) py" where
  "warn m s = (Inr (), s\<lparr>warned := warned s @ [m]\<rparr>)"

fun callable :: "('v, 'w) generator \<Rightarrow> bool" where
  "callable (Factory f) = True"
| "callable g = False"

fun is_list :: "('v, 'w) generator \<Rightarrow> bool" where
  "is_list (Candidates a) = True"
| "is_list g = False"

section \<open>The methods\<close>

text \<open>
  \<^verbatim>\<open>_generate_random\<close>. The module imports \<^verbatim>\<open>warnings\<close> and nothing else:
  the name \<^verbatim>\<open>np\<close> is bound nowhere, so evaluating \<^verbatim>\<open>np.random.choice(generator)\<close>
  raises \<^verbatim>\<open>NameError\<close> before anything is drawn.
\<close>

fun generate_random :: "('v, 'w) generator \<Rightarrow> ('v, ('v, 'w) state) py" where
  "generate_random (Candidates a) = py_raise (NameError ''np'')"
| "generate_random (Factory f) = call f"
| "generate_random (FixedValue v) = py_return v"

definition choose_random :: "string \<Rightarrow> ('v, ('v, 'w) state) py" where
  "choose_random hyp_name s =
     py_bind (getitem (hyperparams s) hyp_name) generate_random s"

definition choose_default :: "string \<Rightarrow> ('v, ('v, 'w) state) py" where
  "choose_default hyp_name s =
     (case map_of (hyp_defaults s) hyp_name of
        Some v \<Rightarrow> py_return v s
      | None \<Rightarrow>
          py_bind (getitem (hyperparams s) hyp_name)
            (\<lambda>generator. case generator of
               Candidates a \<Rightarrow> (\<lambda>s. getitem_list (lists s a) 0 s)
             | Factory f \<Rightarrow> py_bind (warn (MissingDefault hyp_name)) (\<lambda>_. call f)
             | FixedValue v \<Rightarrow> py_return v) s)"

definition default_dict :: "((string \<times> 'v) list, ('v, 'w) state) py" where
  "default_dict s =
     py_bind
       (py_map (\<lambda>hyp_name. py_bind (choose_default hyp_name) (\<lambda>v. py_return (hyp_name, v)))
          (map fst (hyperparams s)))
       (\<lambda>pairs. py_return (dict pairs)) s"

definition random_dict :: "((string \<times> 'v) list, ('v, 'w) state) py" where
  "random_dict s =
     py_bind
       (py_map (\<lambda>(hyp_name, hyp_gen). py_bind (choose_random hyp_name) (\<lambda>v. py_return (hyp_name, v)))
          (hyperparams s))
       (\<lambda>pairs. py_return (dict pairs)) s"

definition default_search :: "int \<Rightarrow> ((string \<times> 'v) list list, ('v, 'w) state) py" where
  "default_search n = py_map (\<lambda>i. default_dict) (py_range n)"

definition random_search :: "int \<Rightarrow> ((string \<times> 'v) list list, ('v, 'w) state) py" where
  "random_search n = py_map (\<lambda>i. random_dict) (py_range n)"

text \<open>
  \<^verbatim>\<open>one_value_search\<close>. \<^verbatim>\<open>n // len(interests)\<close> raises
  \<^verbatim>\<open>ZeroDivisionError\<close> on an empty list; Python's \<^verbatim>\<open>//\<close> is floor division, as
  \<open>div\<close> on \<open>int\<close> is.
\<close>

definition one_value_search ::
  "string list \<Rightarrow> int \<Rightarrow> ((string \<times> 'v) list list, ('v, 'w) state) py" where
  "one_value_search interests n =
     (if length interests = 0 then py_raise ZeroDivisionError
      else
        let n_rep = n div int (length interests) in
        if \<not> n_rep > 0 then py_raise (AssertionError [NRepError n_rep n (length interests)])
        else
          py_bind (default_search n) (\<lambda>result_search.
            py_for (py_range n) (\<lambda>i result_search.
              py_bind (getitem_list interests (int i div n_rep)) (\<lambda>hyp_name.
              py_bind (choose_random hyp_name) (\<lambda>v.
              setitem_at result_search i hyp_name v)))
              result_search))"

text \<open>
  \<^verbatim>\<open>len(generator)\<close> and \<^verbatim>\<open>list(generator)\<close> of \<^verbatim>\<open>one_value_grid_search\<close>;
  both are reached for lists only, after the assertion.
\<close>

fun len :: "('v, 'w) generator \<Rightarrow> (int, ('v, 'w) state) py" where
  "len (Candidates a) = (\<lambda>s. py_return (int (length (lists s a))) s)"
| "len g = py_raise (TypeError ''object has no len()'')"

fun list_of :: "('v, 'w) generator \<Rightarrow> (addr, ('v, 'w) state) py" where
  "list_of (Candidates a) = list_copy a"
| "list_of g = py_raise (TypeError ''object is not iterable'')"

text \<open>
  The first loop of \<^verbatim>\<open>one_value_grid_search\<close>: for each interest, a copy of its
  candidate list from which the first occurrence of the default value is popped.
\<close>

definition non_default_step ::
  "string \<Rightarrow> (string \<times> addr) list \<Rightarrow> ((string \<times> addr) list, ('v, 'w) state) py" where
  "non_default_step hyp_name non_default_hyperparams =
     py_bind (\<lambda>s. getitem (hyperparams s) hyp_name s) (\<lambda>generator.
     py_bind (list_of generator) (\<lambda>non_default_list.
     py_bind (choose_default hyp_name) (\<lambda>d.
     py_bind (\<lambda>s. (case index (lists s non_default_list) d of
                       None \<Rightarrow> py_raise ValueError
                     | Some i \<Rightarrow> py_return i) s) (\<lambda>i.
     py_bind (\<lambda>s. list_write non_default_list (pop (lists s non_default_list) i) s) (\<lambda>_.
     py_return (setitem non_default_hyperparams hyp_name non_default_list))))))"

text \<open>The second loop: one dictionary per remaining candidate, from index 1 on.\<close>

definition fill_step ::
  "(string \<times> addr) list \<Rightarrow> string \<Rightarrow> (string \<times> 'v) list list \<times> nat \<Rightarrow>
     ((string \<times> 'v) list list \<times> nat, ('v, 'w) state) py" where
  "fill_step non_default_hyperparams hyp_name acc =
     py_bind (getitem non_default_hyperparams hyp_name) (\<lambda>l s.
       py_for (lists s l) (\<lambda>value (result_search, search_i).
         py_bind (setitem_at result_search search_i hyp_name value) (\<lambda>result_search.
         py_return (result_search, search_i + 1))) acc s)"

definition one_value_grid_search ::
  "string list \<Rightarrow> ((string \<times> 'v) list list, ('v, 'w) state) py" where
  "one_value_grid_search interests =
     py_bind (py_map (\<lambda>interest.
                py_bind (\<lambda>s. getitem (hyperparams s) interest s) (\<lambda>g. py_return (is_list g)))
              interests) (\<lambda>flags.
     if \<not> list_all id flags then py_raise (AssertionError [])
     else
       py_bind (py_map (\<lambda>interest. py_bind (\<lambda>s. getitem (hyperparams s) interest s) len)
                interests) (\<lambda>lens.
       let n_unique_tuples = sum_list lens + 1 - int (length interests) in
       py_bind (py_for interests non_default_step []) (\<lambda>non_default_hyperparams.
       py_bind (default_search n_unique_tuples) (\<lambda>result_search.
       py_bind (py_for interests (fill_step non_default_hyperparams) (result_search, 1))
         (\<lambda>(result_search, search_i).
           if int search_i = n_unique_tuples then py_return result_search
           else py_raise (AssertionError []))))))"

text \<open>\<^verbatim>\<open>custom_search\<close>: the overriding generators are used as they come.\<close>

definition custom_search ::
  "(string \<times> ('v, 'w) generator) list \<Rightarrow> int \<Rightarrow> ((string \<times> 'v) list list, ('v, 'w) state) py" where
  "custom_search overwritten_hyp n =
     py_bind (default_search n) (\<lambda>result_search.
       py_for (py_range n) (\<lambda>i result_search.
         py_for overwritten_hyp (\<lambda>(hyp_name, hyp_gen) result_search.
           py_bind (generate_random hyp_gen) (\<lambda>v.
           setitem_at result_search i hyp_name v))
           result_search)
         result_search)"

subsection \<open>Construction\<close>

text \<open>\<^verbatim>\<open>str(ex)\<close> of an exception caught by \<^verbatim>\<open>except Exception as ex\<close>.\<close>

fun str_error :: "pyerror \<Rightarrow> string" where
  "str_error (Raised msg) = msg"
| "str_error (TypeError msg) = msg"
| "str_error (NameError name) = ''name '' @ name @ '' is not defined''"
| "str_error (KeyError k) = k"
| "str_error IndexError = ''list index out of range''"
| "str_error ValueError = ''value is not in list''"
| "str_error ZeroDivisionError = ''integer division or modulo by zero''"
| "str_error (AssertionError ps) = []"

fun call_generator :: "('v, 'w) generator \<Rightarrow> ('v, ('v, 'w) state) py" where
  "call_generator (Factory f) = call f"
| "call_generator g = py_raise (TypeError ''object is not callable'')"

text \<open>
  The body of the loop over \<^verbatim>\<open>callable_hyp\<close>: the callable is called once, its value
  dropped, and an exception becomes an entry of \<^verbatim>\<open>errors\<close>.
\<close>

definition probe :: "string \<Rightarrow> problem list \<Rightarrow> (problem list, ('v, 'w) state) py" where
  "probe hyp_name errors s =
     (case py_bind (getitem (hyperparams s) hyp_name) call_generator s of
        (Inl ex, s') \<Rightarrow> (Inr (errors @ [CallError hyp_name (str_error ex)]), s')
      | (Inr v, s') \<Rightarrow> (Inr errors, s'))"

text \<open>
  \<^verbatim>\<open>_check_config\<close>. \<^verbatim>\<open>callable_hyp\<close> is a Python set, and the order in which a
  set of strings is iterated depends on the hashes of the process: \<open>iter_set\<close> is
  that order, as a function of the elements the set was built from.
\<close>

definition check_config :: "(string list \<Rightarrow> string list) \<Rightarrow> (unit, ('v, 'w) state) py" where
  "check_config iter_set s =
     (let all_hyp = map fst (hyperparams s);
          callable_hyp = map fst (filter (\<lambda>(hyp_name, hyp_gen). callable hyp_gen) (hyperparams s));
          non_callable_hyp = filter (\<lambda>k. k \<notin> set callable_hyp) all_hyp;
          default_errors = filter (\<lambda>k. k \<notin> set all_hyp) (map fst (hyp_defaults s));
          errors = (if default_errors \<noteq> [] then [NotHyperparameters (set default_errors)] else [])
      in py_bind (py_for (iter_set callable_hyp) probe errors) (\<lambda>errors.
           let covered_defaults = non_callable_hyp @ map fst (hyp_defaults s);
               not_covered_defaults = filter (\<lambda>k. k \<notin> set covered_defaults) all_hyp
           in py_bind (if not_covered_defaults \<noteq> []
                       then warn (NoDefaultValues (set not_covered_defaults))
                       else py_return ()) (\<lambda>_.
              if errors = [] then py_return () else py_raise (AssertionError errors))) s)"

text \<open>\<^verbatim>\<open>__init__\<close>: the generator map is copied (a new dictionary, the same list objects).\<close>

definition init ::
  "(string list \<Rightarrow> string list) \<Rightarrow> (string \<times> ('v, 'w) generator) list \<Rightarrow>
     (string \<times> 'v) list option \<Rightarrow> (unit, ('v, 'w) state) py" where
  "init iter_set hyperparams_arg hyp_defaults_arg s =
     check_config iter_set
       (s\<lparr>hyperparams := hyperparams_arg,
          hyp_defaults := (case hyp_defaults_arg of None \<Rightarrow> [] | Some d \<Rightarrow> d)\<rparr>)"

section \<open>Vocabulary of the properties\<close>

text \<open>\<open>raises_only P m\<close>: every exception that \<open>m\<close> can raise satisfies \<open>P\<close>.\<close>

definition raises_only :: "(pyerror \<Rightarrow> bool) \<Rightarrow> ('a, 's) py \<Rightarrow> bool" where
  "raises_only P m \<longleftrightarrow> (\<forall>s e s'. m s = (Inl e, s') \<longrightarrow> P e)"

definition no_assert :: "pyerror \<Rightarrow> bool" where
  "no_assert e \<longleftrightarrow> (case e of AssertionError ps \<Rightarrow> False | _ \<Rightarrow> True)"

subsection \<open>Example searchers\<close>

text \<open>\<^verbatim>\<open>HyperparameterSearcher({'a': 1, 'b': 2})\<close>.\<close>

definition fixed_example :: "(int, unit) state" where
  "fixed_example = \<lparr>hyperparams = [(''a'', FixedValue 1), (''b'', FixedValue 2)],
     hyp_defaults = [], lists = (\<lambda>a. []), next_addr = 0, ext = (), warned = []\<rparr>"

text \<open>\<^verbatim>\<open>HyperparameterSearcher({'a': [1, 2]})\<close>.\<close>

definition list_example :: "(int, unit) state" where
  "list_example = \<lparr>hyperparams = [(''a'', Candidates 0)],
     hyp_defaults = [], lists = (\<lambda>a. [])(0 := [1, 2]), next_addr = 1, ext = (), warned = []\<rparr>"

subsection \<open>Construction, as the specification words it\<close>

text \<open>
  The attributes after the two assignments of \<^verbatim>\<open>__init__\<close>, before validation.
\<close>

definition attributes_set ::
  "(string \<times> ('v, 'w) generator) list \<Rightarrow> (string \<times> 'v) list option \<Rightarrow>
     ('v, 'w) state \<Rightarrow> ('v, 'w) state" where
  "attributes_set hyperparams_arg hyp_defaults_arg s =
     s\<lparr>hyperparams := hyperparams_arg,
       hyp_defaults := (case hyp_defaults_arg of None \<Rightarrow> [] | Some d \<Rightarrow> d)\<rparr>"

text \<open>The keys of the defaults that are no hyperparameter.\<close>

definition unknown_defaults :: "('v, 'w) state \<Rightarrow> string list" where
  "unknown_defaults s =
     filter (\<lambda>k. k \<notin> set (map fst (hyperparams s))) (map fst (hyp_defaults s))"

definition callable_names :: "('v, 'w) state \<Rightarrow> string list" where
  "callable_names s =
     map fst (filter (\<lambda>(hyp_name, hyp_gen). callable hyp_gen) (hyperparams s))"

text \<open>
  Probing the named generators one after the other, each in the state the one before
  left: the names whose call raised, with the message, and the state at the end.
\<close>

fun probe_all ::
  "string list \<Rightarrow> ('v, 'w) state \<Rightarrow> (string \<times> string) list \<times> ('v, 'w) state" where
  "probe_all [] s = ([], s)"
| "probe_all (hyp_name # names) s =
     (case py_bind (getitem (hyperparams s) hyp_name) call_generator s of
        (Inl ex, s') \<Rightarrow>
          (case probe_all names s' of
             (raised, s'') \<Rightarrow> ((hyp_name, str_error ex) # raised, s''))
      | (Inr v, s') \<Rightarrow> probe_all names s')"

text \<open>
  All the problems of a configuration: one entry for the unknown keys of the defaults,
  if there are any, then one entry per callable that raised when probed.
\<close>

definition config_problems ::
  "(string list \<Rightarrow> string list) \<Rightarrow> ('v, 'w) state \<Rightarrow> problem list" where
  "config_problems iter_set s =
     (if unknown_defaults s \<noteq> [] then [NotHyperparameters (set (unknown_defaults s))] else [])
     @ map (\<lambda>(hyp_name, msg). CallError hyp_name msg)
         (fst (probe_all (iter_set (callable_names s)) s))"

text \<open>
  \<^verbatim>\<open>HyperparameterSearcher({'x': [1, 2], 'f': f, 'g': g}, {'y': 5})\<close> where \<^verbatim>\<open>f\<close>
  raises \<^verbatim>\<open>Exception('boom')\<close> and \<^verbatim>\<open>g\<close> returns 7: the arguments, and the state
  before the call (the list \<^verbatim>\<open>[1, 2]\<close> is allocated).
\<close>

definition bad_hyperparams :: "(string \<times> (int, unit) generator) list" where
  "bad_hyperparams =
     [(''x'', Candidates 0), (''f'', Factory (\<lambda>w. (Inl ''boom'', w))),
      (''g'', Factory (\<lambda>w. (Inr 7, w)))]"

definition before_init :: "(int, unit) state" where
  "before_init = \<lparr>hyperparams = [], hyp_defaults = [],
     lists = (\<lambda>a. [])(0 := [1, 2]), next_addr = 1, ext = (), warned = []\<rparr>"

subsection \<open>Configurations whose resolution cannot fail\<close>

text \<open>A callable that returns a value whatever the external state is.\<close>

definition never_raises :: "('w \<Rightarrow> (string + 'v) \<times> 'w) \<Rightarrow> bool" where
  "never_raises f \<longleftrightarrow> (\<forall>w. \<exists>v w'. f w = (Inr v, w'))"

text \<open>
  Default resolution cannot fail: every hyperparameter has a default override, or is a
  fixed value, a non-empty candidate list, or a callable that never raises. Random
  resolution of \<open>gens\<close> cannot fail: each generator is a fixed value or a callable
  that never raises.
\<close>

definition default_safe :: "('v, 'w) state \<Rightarrow> bool" where
  "default_safe s \<longleftrightarrow>
     (\<forall>(h, g) \<in> set (hyperparams s).
        h \<in> fst ` set (hyp_defaults s) \<or>
        (case g of Candidates a \<Rightarrow> lists s a \<noteq> [] | Factory f \<Rightarrow> never_raises f
         | FixedValue v \<Rightarrow> True))"

definition random_safe :: "(string \<times> ('v, 'w) generator) list \<Rightarrow> bool" where
  "random_safe gens \<longleftrightarrow>
     (\<forall>(h, g) \<in> set gens.
        case g of Candidates a \<Rightarrow> False | Factory f \<Rightarrow> never_raises f | FixedValue v \<Rightarrow> True)"

text \<open>
  \<open>same_config s t\<close>: the attributes and the heap are those of \<open>s\<close> (the external
  state and the warnings may differ). \<open>after_calls m i s\<close>: the state after \<open>i\<close>
  calls of \<open>m\<close> in a row.
\<close>

definition same_config :: "('v, 'w) state \<Rightarrow> ('v, 'w) state \<Rightarrow> bool" where
  "same_config s t \<longleftrightarrow>
     hyperparams t = hyperparams s \<and> hyp_defaults t = hyp_defaults s \<and>
     lists t = lists s \<and> next_addr t = next_addr s"

definition after_calls :: "('a, 's) py \<Rightarrow> nat \<Rightarrow> 's \<Rightarrow> 's" where
  "after_calls m i s = ((\<lambda>t. snd (m t)) ^^ i) s"

text \<open>\<open>draw_of g v\<close>: \<open>v\<close> is a value that random resolution of \<open>g\<close> can return.\<close>

definition draw_of :: "('v, 'w) generator \<Rightarrow> 'v \<Rightarrow> bool" where
  "draw_of g v \<longleftrightarrow>
     (case g of Candidates a \<Rightarrow> False | Factory f \<Rightarrow> (\<exists>w w'. f w = (Inr v, w'))
      | FixedValue x \<Rightarrow> v = x)"

text \<open>
  \<^verbatim>\<open>HyperparameterSearcher({'a': []})\<close>, and a searcher whose hyperparameter
  \<^verbatim>\<open>c\<close> is a callable that counts its calls.
\<close>

definition empty_list_example :: "(int, unit) state" where
  "empty_list_example = \<lparr>hyperparams = [(''a'', Candidates 0)],
     hyp_defaults = [], lists = (\<lambda>a. []), next_addr = 1, ext = (), warned = []\<rparr>"

definition counter_example :: "(int, nat) state" where
  "counter_example = \<lparr>hyperparams = [(''a'', FixedValue 1), (''c'', Factory (\<lambda>w. (Inr (int w), Suc w)))],
     hyp_defaults = [], lists = (\<lambda>a. []), next_addr = 0, ext = 0, warned = []\<rparr>"

subsection \<open>Heap frames and static defaults\<close>

text \<open>
  \<open>frame s t\<close>: from \<open>s\<close> to \<open>t\<close> the two attributes of the searcher are the same
  and every list object that exists in \<open>s\<close> has the same elements; new list objects may
  have been allocated.
\<close>

definition frame :: "('v, 'w) state \<Rightarrow> ('v, 'w) state \<Rightarrow> bool" where
  "frame s t \<longleftrightarrow>
     hyperparams t = hyperparams s \<and> hyp_defaults t = hyp_defaults s \<and>
     next_addr s \<le> next_addr t \<and> (\<forall>a<next_addr s. lists t a = lists s a)"

text \<open>Every candidate list of the generator map is a list object that exists.\<close>

definition wf_state :: "('v, 'w) state \<Rightarrow> bool" where
  "wf_state s \<longleftrightarrow> (\<forall>(h, g) \<in> set (hyperparams s). \<forall>a. g = Candidates a \<longrightarrow> a < next_addr s)"

text \<open>
  The candidate list of a hyperparameter, and its default when that is fixed by the
  configuration: the override, else the first candidate or the fixed value (none for an
  empty candidate list, and none for a callable, whose default is whatever a call returns).
\<close>

definition cand :: "('v, 'w) state \<Rightarrow> string \<Rightarrow> 'v list" where
  "cand s h = (case map_of (hyperparams s) h of Some (Candidates a) \<Rightarrow> lists s a | _ \<Rightarrow> [])"

definition resolved_default :: "('v, 'w) state \<Rightarrow> string \<Rightarrow> 'v option" where
  "resolved_default s h =
     (case map_of (hyp_defaults s) h of
        Some v \<Rightarrow> Some v
      | None \<Rightarrow>
          (case map_of (hyperparams s) h of
             Some (Candidates a) \<Rightarrow> (case lists s a of [] \<Rightarrow> None | x # xs \<Rightarrow> Some x)
           | Some (FixedValue v) \<Rightarrow> Some v
           | _ \<Rightarrow> None))"

text \<open>
  The state after a list object with the elements \<open>xs\<close> has been allocated.
\<close>

definition with_list :: "('v, 'w) state \<Rightarrow> 'v list \<Rightarrow> ('v, 'w) state" where
  "with_list t xs = t\<lparr>lists := (lists t)(next_addr t := xs), next_addr := Suc (next_addr t)\<rparr>"

text \<open>\<open>preserves R m\<close>: whatever \<open>m\<close> returns or raises, the states before and after are related by \<open>R\<close>.\<close>

definition preserves :: "('s \<Rightarrow> 's \<Rightarrow> bool) \<Rightarrow> ('a, 's) py \<Rightarrow> bool" where
  "preserves R m \<longleftrightarrow> (\<forall>s r t. m s = (r, t) \<longrightarrow> R s t)"

subsection \<open>Sequences of sampling calls\<close>

text \<open>
  The sampling methods, and the state after a call, whether it returned or raised.
\<close>

datatype ('v, 'w) sampling_call =
    DefaultDict
  | RandomDict
  | DefaultSearch int
  | RandomSearch int
  | OneValueSearch "string list" int
  | OneValueGridSearch "string list"
  | CustomSearch "(string \<times> ('v, 'w) generator) list" int

fun perform :: "('v, 'w) sampling_call \<Rightarrow> ('v, 'w) state \<Rightarrow> ('v, 'w) state" where
  "perform DefaultDict s = snd (default_dict s)"
| "perform RandomDict s = snd (random_dict s)"
| "perform (DefaultSearch n) s = snd (default_search n s)"
| "perform (RandomSearch n) s = snd (random_search n s)"
| "perform (OneValueSearch interests n) s = snd (one_value_search interests n s)"
| "perform (OneValueGridSearch interests) s = snd (one_value_grid_search interests s)"
| "perform (CustomSearch overwritten_hyp n) s = snd (custom_search overwritten_hyp n s)"

definition perform_all :: "('v, 'w) sampling_call list \<Rightarrow> ('v, 'w) state \<Rightarrow> ('v, 'w) state" where
  "perform_all calls s = fold perform calls s"

text \<open>\<^verbatim>\<open>HyperparameterSearcher({'a': [1, 2, 3], 'b': [10, 20]})\<close>.\<close>

definition grid_example :: "(int, unit) state" where
  "grid_example = \<lparr>hyperparams = [(''a'', Candidates 0), (''b'', Candidates 1)],
     hyp_defaults = [], lists = (\<lambda>a. [])(0 := [1, 2, 3], 1 := [10, 20]), next_addr = 2,
     ext = (), warned = []\<rparr>"

subsection \<open>Grid search, as the specification words it\<close>

text \<open>Every interest names a hyperparameter whose generator is a list.\<close>

definition all_lists :: "('v, 'w) state \<Rightarrow> string list \<Rightarrow> bool" where
  "all_lists s interests \<longleftrightarrow>
     (\<forall>h \<in> set interests. \<exists>a. map_of (hyperparams s) h = Some (Candidates a))"

text \<open>The default of the hyperparameter is fixed by the configuration and is one of its candidates.\<close>

definition default_present :: "('v, 'w) state \<Rightarrow> string \<Rightarrow> bool" where
  "default_present s h \<longleftrightarrow>
     (case resolved_default s h of None \<Rightarrow> False | Some d \<Rightarrow> d \<in> set (cand s h))"

text \<open>
  No default needs a call: every hyperparameter has a default override, or is a fixed
  value or a non-empty candidate list.
\<close>

definition static_defaults :: "('v, 'w) state \<Rightarrow> bool" where
  "static_defaults s \<longleftrightarrow>
     (\<forall>(h, g) \<in> set (hyperparams s).
        h \<in> fst ` set (hyp_defaults s) \<or>
        (case g of Candidates a \<Rightarrow> lists s a \<noteq> [] | Factory f \<Rightarrow> False | FixedValue v \<Rightarrow> True))"

text \<open>
  With static defaults: the default of a hyperparameter, the default dictionary
  (\<^verbatim>\<open>default_dict()\<close>, see \<open>default_dict_static\<close>), the candidates of a hyperparameter
  without the first occurrence of its default, the pairs (interest, candidate) in the
  order the second loop of \<^verbatim>\<open>one_value_grid_search\<close> visits them, and the number
  \<^verbatim>\<open>n_unique_tuples\<close> the method computes.
\<close>

definition default_of :: "('v, 'w) state \<Rightarrow> string \<Rightarrow> 'v" where
  "default_of s h = the (resolved_default s h)"

definition dflt :: "('v, 'w) state \<Rightarrow> (string \<times> 'v) list" where
  "dflt s = dict (map (\<lambda>h. (h, default_of s h)) (map fst (hyperparams s)))"

definition non_defaults :: "('v, 'w) state \<Rightarrow> string \<Rightarrow> 'v list" where
  "non_defaults s h = remove1 (default_of s h) (cand s h)"

definition assignments :: "('v, 'w) state \<Rightarrow> string list \<Rightarrow> (string \<times> 'v) list" where
  "assignments s interests = concat (map (\<lambda>h. map (Pair h) (non_defaults s h)) interests)"

definition n_unique_tuples :: "('v, 'w) state \<Rightarrow> string list \<Rightarrow> int" where
  "n_unique_tuples s interests =
     sum_list (map (\<lambda>h. int (length (cand s h))) interests) + 1 - int (length interests)"

text \<open>
  The invariant of the first loop: every entry of \<^verbatim>\<open>non_default_hyperparams\<close> refers to
  a list object that holds the candidates without the default.
\<close>

definition ndh_ok :: "('v, 'w) state \<Rightarrow> ('v, 'w) state \<Rightarrow> (string \<times> addr) list \<Rightarrow> bool" where
  "ndh_ok s t acc \<longleftrightarrow>
     (\<forall>h l. map_of acc h = Some l \<longrightarrow> l < next_addr t \<and> lists t l = non_defaults s h)"

text \<open>
  What the specification says \<^verbatim>\<open>one_value_grid_search\<close> returns: the default dictionary,
  then for each interest, in order, and each of its non-default candidates, in order, the
  default dictionary with that one value replaced.
\<close>

definition grid :: "('v, 'w) state \<Rightarrow> string list \<Rightarrow> (string \<times> 'v) list list" where
  "grid s interests =
     dflt s # map (\<lambda>(h, v). setitem (dflt s) h v) (assignments s interests)"

text \<open>\<open>d'\<close> has the keys of \<open>d\<close>, in the same order, and differs from it at \<open>h\<close> and nowhere else.\<close>

definition differs_only_at :: "(string \<times> 'v) list \<Rightarrow> (string \<times> 'v) list \<Rightarrow> string \<Rightarrow> bool" where
  "differs_only_at d d' h \<longleftrightarrow>
     map fst d' = map fst d \<and> (\<forall>k. map_of d' k \<noteq> map_of d k \<longleftrightarrow> k = h)"

text \<open>
  \<^verbatim>\<open>HyperparameterSearcher({'a': [1, 2], 'b': []})\<close> and
  \<^verbatim>\<open>HyperparameterSearcher({'a': [1, 2]}, {'a': 3})\<close>.
\<close>

definition empty_other_example :: "(int, unit) state" where
  "empty_other_example = \<lparr>hyperparams = [(''a'', Candidates 0), (''b'', Candidates 1)],
     hyp_defaults = [], lists = (\<lambda>a. [])(0 := [1, 2]), next_addr = 2, ext = (), warned = []\<rparr>"





text \<open>
  One round of fresh draws: random resolution is called once for each override, in the
  order of the dictionary, each call in the state that the call before it has left.
  \<open>overwrite d vs\<close> stores the pairs \<open>vs\<close> into the dictionary \<open>d\<close>, one after the
  other. A callable that raises whatever the external state is.
\<close>

definition draw_round ::
  "(string \<times> ('v, 'w) generator) list \<Rightarrow> ((string \<times> 'v) list, ('v, 'w) state) py" where
  "draw_round overrides =
     py_map (\<lambda>(hyp_name, hyp_gen). py_bind (generate_random hyp_gen) (\<lambda>v. py_return (hyp_name, v)))
       overrides"

definition overwrite :: "(string \<times> 'a) list \<Rightarrow> (string \<times> 'a) list \<Rightarrow> (string \<times> 'a) list" where
  "overwrite d vs = fold (\<lambda>(k, v) d. setitem d k v) vs d"

definition always_raises :: "('w \<Rightarrow> (string + 'v) \<times> 'w) \<Rightarrow> bool" where
  "always_raises f \<longleftrightarrow> (\<forall>w. \<exists>msg w'. f w = (Inl msg, w'))"

section \<open>Sequencing and exceptions\<close>

lemma py_bind_return [simp]: "py_bind (py_return x) f = f x"
  by (rule ext) (simp add: py_bind_def py_return_def)

lemma py_bind_raise [simp]: "py_bind (py_raise e) f = py_raise e"
  by (rule ext) (simp add: py_bind_def py_raise_def)

lemma py_bind_Inr: "m s = (Inr x, s') \<Longrightarrow> py_bind m f s = f x s'"
  by (simp add: py_bind_def)

lemma py_bind_Inl: "m s = (Inl e, s') \<Longrightarrow> py_bind m f s = (Inl e, s')"
  by (simp add: py_bind_def)

lemma py_bind_eq_Inl:
  "py_bind m f s = (Inl e, s') \<longleftrightarrow>
     m s = (Inl e, s') \<or> (\<exists>x t. m s = (Inr x, t) \<and> f x t = (Inl e, s'))"
  by (auto simp: py_bind_def split: prod.splits sum.splits)

lemma py_bind_eq_Inr:
  "py_bind m f s = (Inr y, s') \<longleftrightarrow> (\<exists>x t. m s = (Inr x, t) \<and> f x t = (Inr y, s'))"
  by (auto simp: py_bind_def split: prod.splits sum.splits)

lemma raises_onlyD: "raises_only P m \<Longrightarrow> m s = (Inl e, s') \<Longrightarrow> P e"
  by (auto simp: raises_only_def)

lemma raises_only_return [simp]: "raises_only P (py_return x)"
  by (simp add: raises_only_def py_return_def)

lemma raises_only_raise [simp]: "raises_only P (py_raise e) \<longleftrightarrow> P e"
  by (simp add: raises_only_def py_raise_def)

lemma raises_only_bind:
  "raises_only P m \<Longrightarrow> (\<And>x. raises_only P (f x)) \<Longrightarrow> raises_only P (py_bind m f)"
  unfolding raises_only_def py_bind_eq_Inl by blast

lemma raises_only_map:
  "(\<And>x. raises_only P (f x)) \<Longrightarrow> raises_only P (py_map f xs)"
  by (induction xs) (simp_all add: raises_only_bind)

lemma raises_only_for:
  "(\<And>x acc. raises_only P (body x acc)) \<Longrightarrow> raises_only P (py_for xs body acc)"
  by (induction xs arbitrary: acc) (simp_all add: raises_only_bind)

lemma raises_only_getitem: "P (KeyError k) \<Longrightarrow> raises_only P (getitem d k)"
  by (simp add: getitem_def split: option.splits)

lemma raises_only_getitem_list: "P IndexError \<Longrightarrow> raises_only P (getitem_list xs i)"
  by (simp add: getitem_list_def Let_def)

lemma raises_only_setitem_at: "P IndexError \<Longrightarrow> raises_only P (setitem_at rs i k v)"
  by (simp add: setitem_at_def)

lemma raises_only_call: "(\<And>msg. P (Raised msg)) \<Longrightarrow> raises_only P (call f)"
  by (auto simp: raises_only_def call_def split: prod.splits sum.splits)

lemma raises_only_warn [simp]: "raises_only P (warn m)"
  by (simp add: raises_only_def warn_def)

lemma no_assert_simps [simp]:
  "no_assert (KeyError k)" "no_assert IndexError" "no_assert (Raised msg)"
  "no_assert (NameError x)" "no_assert ValueError" "no_assert ZeroDivisionError"
  "no_assert (TypeError t)" "\<not> no_assert (AssertionError ps)"
  by (simp_all add: no_assert_def)

lemma no_assert_generate_random: "raises_only no_assert (generate_random g)"
  by (cases g) (simp_all add: raises_only_call)

lemma no_assert_choose_random: "raises_only no_assert (choose_random h)"
  unfolding raises_only_def choose_random_def
proof (intro allI impI)
  fix s e s'
  assume "py_bind (getitem (hyperparams s) h) generate_random s = (Inl e, s')"
  moreover have "raises_only no_assert (py_bind (getitem (hyperparams s) h) generate_random)"
    by (intro raises_only_bind raises_only_getitem no_assert_generate_random) simp
  ultimately show "no_assert e" by (rule raises_onlyD[rotated])
qed

lemma no_assert_choose_default: "raises_only no_assert (choose_default h)"
  unfolding raises_only_def
proof (intro allI impI)
  fix s e s'
  assume a: "choose_default h s = (Inl e, s')"
  show "no_assert e"
  proof (cases "map_of (hyp_defaults s) h")
    case (Some v)
    with a show ?thesis by (simp add: choose_default_def py_return_def)
  next
    case None
    show ?thesis
    proof (cases "map_of (hyperparams s) h")
      case None
      with a \<open>map_of (hyp_defaults s) h = None\<close> show ?thesis
        by (auto simp: choose_default_def getitem_def py_raise_def)
    next
      case (Some g)
      with a \<open>map_of (hyp_defaults s) h = None\<close> show ?thesis
        by (cases g)
           (auto simp: choose_default_def getitem_def py_return_def py_raise_def py_bind_def
              getitem_list_def warn_def call_def Let_def split: if_splits prod.splits sum.splits)
    qed
  qed
qed

lemma no_assert_default_dict: "raises_only no_assert default_dict"
  unfolding raises_only_def
proof (intro allI impI)
  fix s s' :: "('a, 'b) state" and e
  let ?m = "py_bind
       (py_map (\<lambda>hyp_name. py_bind (choose_default hyp_name) (\<lambda>v. py_return (hyp_name, v)))
          (map fst (hyperparams s)))
       (\<lambda>pairs. py_return (dict pairs))"
  assume "default_dict s = (Inl e, s')"
  then have "?m s = (Inl e, s')" by (simp add: default_dict_def)
  moreover have "raises_only no_assert ?m"
    by (intro raises_only_bind raises_only_map no_assert_choose_default raises_only_return)
  ultimately show "no_assert e" by (rule raises_onlyD[rotated])
qed

lemma no_assert_default_search: "raises_only no_assert (default_search n)"
  unfolding default_search_def by (intro raises_only_map no_assert_default_dict)

lemma ovs_small:
  assumes "interests \<noteq> []" "n < int (length interests)"
  shows "one_value_search interests n s =
    (Inl (AssertionError [NRepError (n div int (length interests)) n (length interests)]), s)"
proof -
  have "n div int (length interests) \<le> 0"
  proof (cases "n < 0")
    case True
    with assms show ?thesis by (simp add: div_neg_pos_less0 less_imp_le)
  next
    case False
    with assms show ?thesis by (simp add: div_pos_pos_trivial)
  qed
  then show ?thesis using assms by (simp add: one_value_search_def py_raise_def Let_def)
qed

lemma ovs_large:
  assumes "interests \<noteq> []" "int (length interests) \<le> n"
  shows "raises_only no_assert
    (one_value_search interests n :: ((string \<times> 'a) list list, ('a, 'b) state) py)"
proof -
  have "0 < n div int (length interests)"
    using assms by (simp add: pos_imp_zdiv_pos_iff)
  then have "(one_value_search interests n :: ((string \<times> 'a) list list, ('a, 'b) state) py) =
     py_bind (default_search n) (\<lambda>result_search.
            py_for (py_range n) (\<lambda>i result_search.
              py_bind (getitem_list interests (int i div (n div int (length interests)))) (\<lambda>hyp_name.
              py_bind (choose_random hyp_name) (\<lambda>v.
              setitem_at result_search i hyp_name v)))
              result_search)"
    using assms by (simp add: one_value_search_def Let_def)
  moreover have "raises_only no_assert (py_bind (default_search n) (\<lambda>result_search.
            py_for (py_range n) (\<lambda>i result_search.
              py_bind (getitem_list interests (int i div (n div int (length interests)))) (\<lambda>hyp_name.
              py_bind (choose_random hyp_name) (\<lambda>v.
              setitem_at result_search i hyp_name v)))
              result_search) :: ((string \<times> 'a) list list, ('a, 'b) state) py)"
    by (intro raises_only_bind raises_only_for no_assert_default_search
       raises_only_getitem_list no_assert_choose_random raises_only_setitem_at) simp_all
  ultimately show ?thesis by simp
qed

lemma py_for_Inr_all:
  "py_for xs body acc s = (Inr r, s') \<Longrightarrow> x \<in> set xs \<Longrightarrow> \<exists>a t r' t'. body x a t = (Inr r', t')"
proof (induction xs arbitrary: acc s)
  case Nil then show ?case by simp
next
  case (Cons y ys)
  from Cons.prems(1) obtain a t where b: "body y acc s = (Inr a, t)" and r: "py_for ys body a t = (Inr r, s')"
    by (auto simp: py_bind_eq_Inr)
  show ?case
  proof (cases "x = y")
    case True with b show ?thesis by blast
  next
    case False
    with Cons.prems(2) have "x \<in> set ys" by simp
    from Cons.IH[OF r this] show ?thesis .
  qed
qed

lemma ovs_remainder:
  fixes s :: "('v, 'w) state"
  assumes "interests \<noteq> []" "int (length interests) \<le> n" "n mod int (length interests) \<noteq> 0"
  shows "\<exists>e s'. one_value_search interests n s = (Inl e, s')"
proof (rule ccontr)
  let ?k = "int (length interests)"
  let ?r = "n div ?k"
  assume "\<not> ?thesis"
  then obtain rs s' where ok: "one_value_search interests n s = (Inr rs, s')"
    by (metis old.prod.exhaust sum.exhaust_sel sum.collapse(1) surj_pair)
  have rpos: "0 < ?r" using assms by (simp add: pos_imp_zdiv_pos_iff)
  let ?body = "\<lambda>i result_search.
              py_bind (getitem_list interests (int i div ?r)) (\<lambda>hyp_name.
              py_bind (choose_random hyp_name) (\<lambda>v.
              setitem_at result_search i hyp_name v)) :: ((string \<times> 'v) list list, ('v, 'w) state) py"
  from ok rpos assms(1) obtain d t where
    loop: "py_for (py_range n) ?body d t = (Inr rs, s')"
    by (auto simp: one_value_search_def Let_def py_bind_eq_Inr)
  have kpos: "0 < ?k" using assms(1) by simp
  have "?k * ?r < n" using assms(3) kpos
    by (smt (verit, best) mult_div_mod_eq pos_mod_sign)
  moreover have "0 < n" using kpos assms(2) by linarith
  moreover have "0 \<le> ?k * ?r" using kpos rpos by simp
  ultimately have mem: "nat (?k * ?r) \<in> set (py_range n)" by (simp add: py_range_def)
  from py_for_Inr_all[OF loop mem] obtain a u r' u' where
    "?body (nat (?k * ?r)) a u = (Inr r', u')" by blast
  moreover have "int (nat (?k * ?r)) div ?r = ?k" using kpos rpos by simp
  ultimately show False
    by (simp add: getitem_list_def py_bind_def py_raise_def)
qed

section \<open>Random resolution\<close>

text \<open>
  C1. Random resolution of a candidate list does not return an element of the list:
  it raises \<^verbatim>\<open>NameError\<close>, since \<^verbatim>\<open>np\<close> is not bound in the module. A
  callable is called and a fixed value is returned as it is. So
  \<^verbatim>\<open>HyperparameterSearcher({'a': [1, 2]}).random_dict()\<close> raises.
\<close>

theorem generate_random_cases:
  fixes s :: "('v, 'w) state"
  shows "generate_random (Candidates a) s = (Inl (NameError ''np''), s)
    \<and> generate_random (Factory f) s = call f s
    \<and> generate_random (FixedValue v) s = (Inr v, s)
    \<and> fst (random_dict list_example) = Inl (NameError ''np'')"
proof -
  have "fst (random_dict list_example) = Inl (NameError ''np'')"
    by code_simp
  then show ?thesis
    by (simp add: py_raise_def py_return_def)
qed

section \<open>One value search\<close>

text \<open>
  C2. When \<open>n\<close> is not a multiple of the number \<open>k\<close> of interests,
  \<^verbatim>\<open>one_value_search\<close> returns no list of dictionaries: at \<open>i = k * n_rep\<close> the
  index \<open>i // n_rep = k\<close> is out of range of \<^verbatim>\<open>interests\<close>, so the call raises
  (\<^verbatim>\<open>IndexError\<close> there, if nothing raised before). The remainder is not absorbed
  by the last interest.
\<close>

theorem one_value_search_remainder_raises:
  fixes s :: "('v, 'w) state"
  assumes "interests \<noteq> []" "int (length interests) \<le> n" "n mod int (length interests) \<noteq> 0"
  shows "\<exists>e s'. one_value_search interests n s = (Inl e, s')"
  using assms by (rule ovs_remainder)

theorem one_value_search_remainder_raises_witness:
  "(\<exists>e s'. one_value_search [''a'', ''b''] 5 fixed_example = (Inl e, s'))
   \<and> fst (one_value_search [''a'', ''b''] 5 fixed_example) = Inl IndexError
   \<and> fst (one_value_search [''a'', ''b''] 4 fixed_example)
       = Inr (replicate 4 [(''a'', 1), (''b'', 2)])"
proof -
  have a: "fst (one_value_search [''a'', ''b''] 5 fixed_example) = Inl IndexError"
    by code_simp
  have b: "fst (one_value_search [''a'', ''b''] 4 fixed_example)
       = Inr (replicate 4 [(''a'', 1), (''b'', 2)])"
    by code_simp
  have c: "\<exists>e s'. one_value_search [''a'', ''b''] 5 fixed_example = (Inl e, s')"
    by (rule one_value_search_remainder_raises) simp_all
  from a b c show ?thesis by blast
qed

text \<open>
  C6, as amended. For a non-empty list of \<open>k\<close> interests, \<^verbatim>\<open>one_value_search\<close> fails
  its assertion exactly when \<open>n // k \<le> 0\<close>, that is exactly when \<open>n < k\<close>; it then has
  built no dictionary and has changed nothing.
\<close>

theorem one_value_search_assertion_iff:
  fixes s :: "('v, 'w) state"
  assumes "interests \<noteq> []"
  shows "((\<exists>ps. fst (one_value_search interests n s) = Inl (AssertionError ps))
            \<longleftrightarrow> n div int (length interests) \<le> 0)
    \<and> (n div int (length interests) \<le> 0 \<longleftrightarrow> n < int (length interests))
    \<and> (n < int (length interests) \<longrightarrow>
          one_value_search interests n s =
            (Inl (AssertionError [NRepError (n div int (length interests)) n (length interests)]), s))"
proof -
  have kpos: "0 < int (length interests)" using assms by simp
  have le: "n div int (length interests) \<le> 0 \<longleftrightarrow> n < int (length interests)"
    using pos_imp_zdiv_pos_iff[OF kpos, of n] by linarith
  have small: "one_value_search interests n s =
            (Inl (AssertionError [NRepError (n div int (length interests)) n (length interests)]), s)"
    if "n < int (length interests)"
    using assms that by (rule ovs_small)
  have iff: "(\<exists>ps. fst (one_value_search interests n s) = Inl (AssertionError ps))
            \<longleftrightarrow> n < int (length interests)"
  proof
    assume "\<exists>ps. fst (one_value_search interests n s) = Inl (AssertionError ps)"
    then obtain ps s' where r: "one_value_search interests n s = (Inl (AssertionError ps), s')"
      by (metis prod.collapse)
    show "n < int (length interests)"
    proof (rule ccontr)
      assume "\<not> n < int (length interests)"
      then have "raises_only no_assert
         (one_value_search interests n :: ((string \<times> 'v) list list, ('v, 'w) state) py)"
        using assms by (intro ovs_large) simp_all
      from raises_onlyD[OF this r] show False by simp
    qed
  next
    assume "n < int (length interests)"
    then show "\<exists>ps. fst (one_value_search interests n s) = Inl (AssertionError ps)"
      by (simp add: small)
  qed
  from le small iff show ?thesis by simp
qed

theorem one_value_search_assertion_iff_witness:
  "one_value_search [''a'', ''b''] 1 fixed_example
     = (Inl (AssertionError [NRepError 0 1 2]), fixed_example)
   \<and> one_value_search [''a'', ''b''] (- 3) fixed_example
     = (Inl (AssertionError [NRepError (- 2) (- 3) 2]), fixed_example)
   \<and> \<not> (\<exists>ps. fst (one_value_search [''a'', ''b''] 2 fixed_example) = Inl (AssertionError ps))"
  using one_value_search_assertion_iff[of "[''a'', ''b'']" 1 fixed_example]
    one_value_search_assertion_iff[of "[''a'', ''b'']" "- 3" fixed_example]
    one_value_search_assertion_iff[of "[''a'', ''b'']" 2 fixed_example]
  by simp

text \<open>
  The claim as stated fails for a negative \<open>n\<close>: the assertion fails although
  \<open>n // k\<close> is not 0.
\<close>

theorem one_value_search_assertion_iff_counterexample:
  "fst (one_value_search [''a'', ''b''] (- 3) fixed_example)
     = Inl (AssertionError [NRepError (- 2) (- 3) 2])
   \<and> (- 3) div int (length [''a'', ''b'']) \<noteq> 0"
  by (simp add: one_value_search_def py_raise_def)

text \<open>
  C9. On the empty list of interests \<^verbatim>\<open>one_value_search\<close> raises
  \<^verbatim>\<open>ZeroDivisionError\<close>, for every \<open>n\<close>, from \<^verbatim>\<open>n // len(interests)\<close>: neither the
  assertion on \<^verbatim>\<open>n_rep\<close> nor anything else is reached, and nothing has changed.
\<close>

theorem one_value_search_no_interest:
  fixes s :: "('v, 'w) state"
  shows "one_value_search [] n s = (Inl ZeroDivisionError, s)"
  by (simp add: one_value_search_def py_raise_def)

section \<open>Construction\<close>

lemma py_for_probe:
  "py_for names probe errors s =
     (Inr (errors @ map (\<lambda>(hyp_name, msg). CallError hyp_name msg) (fst (probe_all names s))),
      snd (probe_all names s))"
proof (induction names arbitrary: errors s)
  case Nil
  then show ?case by (simp add: py_return_def)
next
  case (Cons h names)
  obtain r s' where m: "py_bind (getitem (hyperparams s) h) call_generator s = (r, s')"
    by (cases "py_bind (getitem (hyperparams s) h) call_generator s")
  show ?case
  proof (cases r)
    case (Inl ex)
    with m have "probe h errors s = (Inr (errors @ [CallError h (str_error ex)]), s')"
      by (simp add: probe_def)
    then have "py_for (h # names) probe errors s
        = py_for names probe (errors @ [CallError h (str_error ex)]) s'"
      by (simp add: py_bind_Inr)
    with m Inl show ?thesis by (simp add: Cons.IH split: prod.splits)
  next
    case (Inr v)
    with m have "probe h errors s = (Inr errors, s')"
      by (simp add: probe_def)
    then have "py_for (h # names) probe errors s = py_for names probe errors s'"
      by (simp add: py_bind_Inr)
    with m Inr show ?thesis by (simp add: Cons.IH)
  qed
qed

lemma check_config_result:
  fixes s :: "('v, 'w) state"
  shows "fst (check_config iter_set s) =
     (if config_problems iter_set s = [] then Inr ()
      else Inl (AssertionError (config_problems iter_set s)))"
  by (simp add: check_config_def Let_def py_bind_def py_for_probe config_problems_def
      unknown_defaults_def callable_names_def warn_def py_return_def py_raise_def)

lemma config_problems_Nil:
  "config_problems iter_set s = [] \<longleftrightarrow>
     set (map fst (hyp_defaults s)) \<subseteq> set (map fst (hyperparams s))
     \<and> fst (probe_all (iter_set (callable_names s)) s) = []"
  by (auto simp: config_problems_def unknown_defaults_def filter_empty_conv)

lemma probe_all_names:
  "(h, msg) \<in> set (fst (probe_all names s)) \<Longrightarrow> h \<in> set names"
proof (induction names arbitrary: s)
  case Nil
  then show ?case by simp
next
  case (Cons x names)
  obtain r s' where m: "py_bind (getitem (hyperparams s) x) call_generator s = (r, s')"
    by (cases "py_bind (getitem (hyperparams s) x) call_generator s")
  show ?case
  proof (cases r)
    case (Inl ex)
    with m Cons.prems have "h = x \<or> (h, msg) \<in> set (fst (probe_all names s'))"
      by (auto split: prod.splits)
    with Cons.IH show ?thesis by auto
  next
    case (Inr v)
    with m Cons.prems have "(h, msg) \<in> set (fst (probe_all names s'))" by simp
    with Cons.IH show ?thesis by auto
  qed
qed

lemma callable_names_Factory:
  "h \<in> set (callable_names s) \<Longrightarrow> \<exists>f. (h, Factory f) \<in> set (hyperparams s)"
proof -
  assume "h \<in> set (callable_names s)"
  then obtain g where "(h, g) \<in> set (hyperparams s)" "callable g"
    by (auto simp: callable_names_def)
  then show ?thesis by (cases g) auto
qed

text \<open>
  C5. Construction fails with the assertion of \<^verbatim>\<open>_check_config\<close> exactly when the
  configuration has a problem, that is when a key of the defaults is no hyperparameter or
  the probe of some callable raised; the error then carries all the problems: the
  entry for the unknown keys first, then one entry per callable that raised, in the order
  the set of callables is iterated. Only callables are reported as call errors.
\<close>

theorem init_fails_iff:
  fixes s :: "('v, 'w) state"
  shows "fst (init iter_set hp dflts s) =
      (if config_problems iter_set (attributes_set hp dflts s) = [] then Inr ()
       else Inl (AssertionError (config_problems iter_set (attributes_set hp dflts s))))
    \<and> (config_problems iter_set (attributes_set hp dflts s) = [] \<longleftrightarrow>
         set (map fst (case dflts of None \<Rightarrow> [] | Some d \<Rightarrow> d)) \<subseteq> set (map fst hp)
         \<and> fst (probe_all (iter_set (callable_names (attributes_set hp dflts s)))
                  (attributes_set hp dflts s)) = [])
    \<and> (set (iter_set (callable_names (attributes_set hp dflts s)))
          = set (callable_names (attributes_set hp dflts s)) \<longrightarrow>
        (\<forall>(h, msg) \<in> set (fst (probe_all (iter_set (callable_names (attributes_set hp dflts s)))
                  (attributes_set hp dflts s))). \<exists>f. (h, Factory f) \<in> set hp))"
proof (intro conjI impI)
  show "fst (init iter_set hp dflts s) =
      (if config_problems iter_set (attributes_set hp dflts s) = [] then Inr ()
       else Inl (AssertionError (config_problems iter_set (attributes_set hp dflts s))))"
    unfolding init_def attributes_set_def[symmetric] by (rule check_config_result)
next
  show "config_problems iter_set (attributes_set hp dflts s) = [] \<longleftrightarrow>
         set (map fst (case dflts of None \<Rightarrow> [] | Some d \<Rightarrow> d)) \<subseteq> set (map fst hp)
         \<and> fst (probe_all (iter_set (callable_names (attributes_set hp dflts s)))
                  (attributes_set hp dflts s)) = []"
    unfolding config_problems_Nil by (simp add: attributes_set_def)
next
  assume perm: "set (iter_set (callable_names (attributes_set hp dflts s)))
          = set (callable_names (attributes_set hp dflts s))"
  show "\<forall>(h, msg) \<in> set (fst (probe_all (iter_set (callable_names (attributes_set hp dflts s)))
                  (attributes_set hp dflts s))). \<exists>f. (h, Factory f) \<in> set hp"
  proof (clarify)
    fix h msg
    assume "(h, msg) \<in> set (fst (probe_all (iter_set (callable_names (attributes_set hp dflts s)))
                  (attributes_set hp dflts s)))"
    then have "h \<in> set (callable_names (attributes_set hp dflts s))"
      using perm probe_all_names by blast
    from callable_names_Factory[OF this] show "\<exists>f. (h, Factory f) \<in> set hp"
      by (simp add: attributes_set_def)
  qed
qed

theorem init_fails_iff_witness:
  "fst (init id bad_hyperparams (Some [(''y'', 5)]) before_init)
     = Inl (AssertionError [NotHyperparameters {''y''}, CallError ''f'' ''boom''])
   \<and> fst (init rev bad_hyperparams (Some [(''x'', 5)]) before_init)
     = Inl (AssertionError [CallError ''f'' ''boom''])
   \<and> fst (init id [(''x'', Candidates 0)] None before_init) = Inr ()"
proof -
  have a: "config_problems id (attributes_set bad_hyperparams (Some [(''y'', 5)]) before_init)
      = [NotHyperparameters {''y''}, CallError ''f'' ''boom'']"
    by (simp add: config_problems_def attributes_set_def bad_hyperparams_def before_init_def
        unknown_defaults_def callable_names_def getitem_def py_bind_def py_return_def call_def)
  have b: "config_problems rev (attributes_set bad_hyperparams (Some [(''x'', 5)]) before_init)
      = [CallError ''f'' ''boom'']"
    by (simp add: config_problems_def attributes_set_def bad_hyperparams_def before_init_def
        unknown_defaults_def callable_names_def getitem_def py_bind_def py_return_def call_def)
  have c: "config_problems id (attributes_set [(''x'', Candidates 0)] None before_init) = []"
    by (simp add: config_problems_def attributes_set_def before_init_def
        unknown_defaults_def callable_names_def)
  show ?thesis
    using init_fails_iff[of id bad_hyperparams "Some [(''y'', 5)]" before_init]
      init_fails_iff[of rev bad_hyperparams "Some [(''x'', 5)]" before_init]
      init_fails_iff[of id "[(''x'', Candidates 0)]" None before_init]
    by (simp only: a b c) simp
qed

section \<open>Searches that cannot fail\<close>

lemma same_config_refl [simp]: "same_config s s"
  by (simp add: same_config_def)

lemma same_config_trans: "same_config s t \<Longrightarrow> same_config t u \<Longrightarrow> same_config s u"
  by (simp add: same_config_def)

lemma default_safe_cong: "same_config s t \<Longrightarrow> default_safe s \<Longrightarrow> default_safe t"
  by (auto simp: same_config_def default_safe_def split: generator.splits)

lemma call_total:
  assumes "never_raises f"
  shows "\<exists>v t. call f s = (Inr v, t) \<and> same_config s t"
proof -
  from assms obtain v w' where "f (ext s) = (Inr v, w')"
    unfolding never_raises_def by blast
  then show ?thesis by (simp add: call_def same_config_def)
qed

lemma choose_default_total:
  assumes safe: "default_safe s" and key: "h \<in> set (map fst (hyperparams s))"
  shows "\<exists>v t. choose_default h s = (Inr v, t) \<and> same_config s t"
proof (cases "map_of (hyp_defaults s) h")
  case (Some v)
  then show ?thesis by (simp add: choose_default_def py_return_def)
next
  case None
  then have nodef: "h \<notin> fst ` set (hyp_defaults s)"
    by (simp add: map_of_eq_None_iff)
  from key obtain g where g: "map_of (hyperparams s) h = Some g"
    by (metis list.set_map map_of_eq_None_iff not_None_eq)
  then have "(h, g) \<in> set (hyperparams s)" by (rule map_of_SomeD)
  with safe nodef have ok: "case g of Candidates a \<Rightarrow> lists s a \<noteq> [] | Factory f \<Rightarrow> never_raises f
         | FixedValue v \<Rightarrow> True"
    unfolding default_safe_def by blast
  show ?thesis
  proof (cases g)
    case (Candidates a)
    with ok have "lists s a \<noteq> []" by simp
    with None g Candidates show ?thesis
      by (simp add: choose_default_def getitem_def getitem_list_def py_return_def)
  next
    case (Factory f)
    with ok have "never_raises f" by simp
    from call_total[OF this, of "s\<lparr>warned := warned s @ [MissingDefault h]\<rparr>"]
    obtain v t where "call f (s\<lparr>warned := warned s @ [MissingDefault h]\<rparr>) = (Inr v, t)"
      "same_config (s\<lparr>warned := warned s @ [MissingDefault h]\<rparr>) t" by blast
    with None g Factory show ?thesis
      by (simp add: choose_default_def getitem_def py_bind_def warn_def py_return_def same_config_def)
  next
    case (FixedValue v)
    with None g show ?thesis
      by (simp add: choose_default_def getitem_def py_return_def)
  qed
qed

lemma py_map_total:
  assumes step: "\<And>x t. x \<in> set xs \<Longrightarrow> I t \<Longrightarrow> \<exists>y t'. f x t = (Inr y, t') \<and> I t'"
    and "I s"
  shows "\<exists>ys s'. py_map f xs s = (Inr ys, s') \<and> length ys = length xs \<and> I s'"
  using assms
proof (induction xs arbitrary: s)
  case Nil
  then show ?case by (simp add: py_return_def)
next
  case (Cons x xs)
  from Cons.prems(1)[of x s] Cons.prems(2) obtain y t where y: "f x s = (Inr y, t)" "I t"
    by auto
  from Cons.IH[of t] Cons.prems(1) y(2) obtain ys s' where
    ys: "py_map f xs t = (Inr ys, s')" "length ys = length xs" "I s'"
    by auto
  from y ys show ?case by (simp add: py_bind_def py_return_def)
qed

lemma default_dict_total:
  assumes "default_safe s"
  shows "\<exists>d t. default_dict s = (Inr d, t) \<and> same_config s t"
proof -
  let ?f = "\<lambda>hyp_name. py_bind (choose_default hyp_name) (\<lambda>v. py_return (hyp_name, v))"
  have "\<exists>ys s'. py_map ?f (map fst (hyperparams s)) s = (Inr ys, s')
      \<and> length ys = length (map fst (hyperparams s)) \<and> same_config s s'"
  proof (rule py_map_total[where I = "same_config s"])
    fix x t
    assume x: "x \<in> set (map fst (hyperparams s))" and t: "same_config s t"
    then have "default_safe t" "x \<in> set (map fst (hyperparams t))"
      using assms by (auto intro: default_safe_cong simp: same_config_def)
    from choose_default_total[OF this] obtain v u where
      "choose_default x t = (Inr v, u)" "same_config t u" by blast
    with t show "\<exists>y t'. ?f x t = (Inr y, t') \<and> same_config s t'"
      by (auto simp: py_bind_def py_return_def intro: same_config_trans)
  qed simp
  then show ?thesis by (auto simp: default_dict_def py_bind_def py_return_def)
qed

lemma choose_random_total:
  assumes safe: "random_safe (hyperparams s)" and key: "h \<in> set (map fst (hyperparams s))"
  shows "\<exists>v t. choose_random h s = (Inr v, t) \<and> same_config s t"
proof -
  from key obtain g where g: "map_of (hyperparams s) h = Some g"
    by (metis list.set_map map_of_eq_None_iff not_None_eq)
  then have "(h, g) \<in> set (hyperparams s)" by (rule map_of_SomeD)
  with safe have ok: "case g of Candidates a \<Rightarrow> False | Factory f \<Rightarrow> never_raises f
         | FixedValue v \<Rightarrow> True"
    unfolding random_safe_def by blast
  show ?thesis
  proof (cases g)
    case (Candidates a)
    with ok show ?thesis by simp
  next
    case (Factory f)
    with ok have "never_raises f" by simp
    from call_total[OF this, of s] g Factory show ?thesis
      by (simp add: choose_random_def getitem_def)
  next
    case (FixedValue v)
    with g show ?thesis
      by (simp add: choose_random_def getitem_def py_return_def)
  qed
qed

lemma random_dict_total:
  assumes "random_safe (hyperparams s)"
  shows "\<exists>d t. random_dict s = (Inr d, t) \<and> same_config s t"
proof -
  let ?f = "\<lambda>(hyp_name, hyp_gen).
     py_bind (choose_random hyp_name) (\<lambda>v. py_return (hyp_name, v))"
  have "\<exists>ys s'. py_map ?f (hyperparams s) s = (Inr ys, s')
      \<and> length ys = length (hyperparams s) \<and> same_config s s'"
  proof (rule py_map_total[where I = "same_config s"])
    fix x t
    assume x: "x \<in> set (hyperparams s)" and t: "same_config s t"
    then have "random_safe (hyperparams t)" "fst x \<in> set (map fst (hyperparams t))"
      using assms by (auto simp: same_config_def)
    from choose_random_total[OF this] obtain v u where
      "choose_random (fst x) t = (Inr v, u)" "same_config t u" by blast
    with t show "\<exists>y t'. ?f x t = (Inr y, t') \<and> same_config s t'"
      by (cases x) (auto simp: py_bind_def py_return_def intro: same_config_trans)
  qed simp
  then show ?thesis by (auto simp: random_dict_def py_bind_def py_return_def)
qed

lemma after_calls_0 [simp]: "after_calls m 0 s = s"
  by (simp add: after_calls_def)

lemma after_calls_Suc: "after_calls m (Suc i) s = after_calls m i (snd (m s))"
  using funpow_swap1[of "\<lambda>t. snd (m t)" i s] by (simp add: after_calls_def)

lemma py_map_calls:
  assumes step: "\<And>t. I t \<Longrightarrow> \<exists>y t'. m t = (Inr y, t') \<and> I t'"
    and "I s"
  shows "\<exists>ys s'. py_map (\<lambda>i. m) xs s = (Inr ys, s') \<and> length ys = length xs
      \<and> s' = after_calls m (length xs) s
      \<and> (\<forall>i<length xs. I (after_calls m i s)
            \<and> m (after_calls m i s) = (Inr (ys ! i), after_calls m (Suc i) s))"
  using assms(2)
proof (induction xs arbitrary: s)
  case Nil
  then show ?case by (simp add: py_return_def)
next
  case (Cons x xs)
  from step[OF Cons.prems] obtain y t where y: "m s = (Inr y, t)" "I t" by blast
  from Cons.IH[OF y(2)] obtain ys s' where
    ys: "py_map (\<lambda>i. m) xs t = (Inr ys, s')" "length ys = length xs"
      "s' = after_calls m (length xs) t"
      "\<forall>i<length xs. I (after_calls m i t)
          \<and> m (after_calls m i t) = (Inr (ys ! i), after_calls m (Suc i) t)"
    by blast
  have t: "t = snd (m s)" using y by simp
  have "\<forall>i<length (x # xs). I (after_calls m i s)
      \<and> m (after_calls m i s) = (Inr ((y # ys) ! i), after_calls m (Suc i) s)"
  proof (intro allI impI)
    fix i assume "i < length (x # xs)"
    show "I (after_calls m i s)
      \<and> m (after_calls m i s) = (Inr ((y # ys) ! i), after_calls m (Suc i) s)"
    proof (cases i)
      case 0
      with y Cons.prems show ?thesis by (simp add: after_calls_Suc)
    next
      case (Suc j)
      with \<open>i < length (x # xs)\<close> have "j < length xs" by simp
      with ys(4) have "I (after_calls m j t)
          \<and> m (after_calls m j t) = (Inr (ys ! j), after_calls m (Suc j) t)" by simp
      with Suc t show ?thesis by (simp add: after_calls_Suc)
    qed
  qed
  moreover have "py_map (\<lambda>i. m) (x # xs) s = (Inr (y # ys), s')"
    using y(1) ys(1) by (simp add: py_bind_def py_return_def)
  moreover have "s' = after_calls m (length (x # xs)) s"
    using ys(3) t by (simp add: after_calls_Suc)
  ultimately show ?case using ys(2) by simp
qed

lemma map_of_setitem: "map_of (setitem d k v) = (map_of d)(k \<mapsto> v)"
  by (induction d k v rule: setitem.induct) (auto simp: fun_eq_iff)

lemma keys_setitem: "fst ` set (setitem d k v) = insert k (fst ` set d)"
  by (induction d k v rule: setitem.induct) auto

lemma map_fst_setitem:
  "map fst (setitem d k v) = (if k \<in> set (map fst d) then map fst d else map fst d @ [k])"
  by (induction d k v rule: setitem.induct) auto

lemma generate_random_total:
  assumes "case g of Candidates a \<Rightarrow> False | Factory f \<Rightarrow> never_raises f | FixedValue v \<Rightarrow> True"
  shows "\<exists>v t. generate_random g s = (Inr v, t) \<and> same_config s t \<and> draw_of g v"
proof (cases g)
  case (Candidates a)
  with assms show ?thesis by simp
next
  case (Factory f)
  with assms have "never_raises f" by simp
  then obtain v w' where "f (ext s) = (Inr v, w')" unfolding never_raises_def by blast
  with Factory show ?thesis by (auto simp: call_def same_config_def draw_of_def)
next
  case (FixedValue v)
  then show ?thesis by (simp add: py_return_def draw_of_def)
qed

lemma override_loop:
  fixes t :: "('v, 'w) state"
  assumes "i < length rs" "random_safe ovs" "distinct (map fst ovs)"
  shows "\<exists>d' t'. py_for ovs (\<lambda>(hyp_name, hyp_gen) result_search.
           py_bind (generate_random hyp_gen) (\<lambda>v.
           setitem_at result_search i hyp_name v)) rs t = (Inr (rs[i := d']), t')
      \<and> same_config t t'
      \<and> (\<forall>(h, g) \<in> set ovs. \<exists>v. map_of d' h = Some v \<and> draw_of g v)
      \<and> (\<forall>h. h \<notin> fst ` set ovs \<longrightarrow> map_of d' h = map_of (rs ! i) h)
      \<and> set (map fst d') = set (map fst (rs ! i)) \<union> fst ` set ovs"
  using assms
proof (induction ovs arbitrary: rs t)
  case Nil
  then show ?case by (auto simp: py_return_def intro!: exI[of _ "rs ! i"])
next
  case (Cons p ovs)
  obtain h g where p: "p = (h, g)" by (cases p)
  let ?body = "\<lambda>(hyp_name, hyp_gen) result_search.
           py_bind (generate_random hyp_gen) (\<lambda>v.
           setitem_at result_search i hyp_name v) :: ((string \<times> 'v) list list, ('v, 'w) state) py"
  from Cons.prems(2) p have
    "case g of Candidates a \<Rightarrow> False | Factory f \<Rightarrow> never_raises f | FixedValue v \<Rightarrow> True"
    and safe: "random_safe ovs"
    by (auto simp: random_safe_def)
  from generate_random_total[OF this(1), of t] obtain v t1 where
    v: "generate_random g t = (Inr v, t1)" "same_config t t1" "draw_of g v" by blast
  let ?rs1 = "rs[i := setitem (rs ! i) h v]"
  have step: "?body p rs t = (Inr ?rs1, t1)"
    using v(1) Cons.prems(1) p by (simp add: py_bind_def setitem_at_def py_return_def)
  have len: "i < length ?rs1" using Cons.prems(1) by simp
  from Cons.prems(3) p have dist: "distinct (map fst ovs)" and fresh: "h \<notin> fst ` set ovs"
    by auto
  from Cons.IH[OF len safe dist, of t1] obtain d' t' where
    ih: "py_for ovs ?body ?rs1 t1 = (Inr (?rs1[i := d']), t')" "same_config t1 t'"
      "\<forall>(h, g) \<in> set ovs. \<exists>v. map_of d' h = Some v \<and> draw_of g v"
      "\<forall>k. k \<notin> fst ` set ovs \<longrightarrow> map_of d' k = map_of (?rs1 ! i) k"
      "set (map fst d') = set (map fst (?rs1 ! i)) \<union> fst ` set ovs"
    by blast
  have r1: "?rs1 ! i = setitem (rs ! i) h v" using Cons.prems(1) by simp
  have "py_for (p # ovs) ?body rs t = (Inr (rs[i := d']), t')"
    using step ih(1) by (simp add: py_bind_Inr)
  moreover have "same_config t t'" using v(2) ih(2) by (rule same_config_trans)
  moreover have "\<forall>(h, g) \<in> set (p # ovs). \<exists>v. map_of d' h = Some v \<and> draw_of g v"
    using ih(3,4) fresh v(3) p r1 by (auto simp: map_of_setitem)
  moreover have "\<forall>k. k \<notin> fst ` set (p # ovs) \<longrightarrow> map_of d' k = map_of (rs ! i) k"
    using ih(4) p r1 by (auto simp: map_of_setitem)
  moreover have "set (map fst d') = set (map fst (rs ! i)) \<union> fst ` set (p # ovs)"
    using ih(5) p r1 by (auto simp: keys_setitem)
  ultimately show ?case by blast
qed

lemma py_for_indexwise:
  assumes body: "\<And>i rs t. i \<in> set xs \<Longrightarrow> i < length rs \<Longrightarrow>
        \<exists>d' t'. body i rs t = (Inr (rs[i := d']), t') \<and> P (rs ! i) d'"
    and "distinct xs" "\<forall>i\<in>set xs. i < length rs"
  shows "\<exists>rs' s'. py_for xs body rs s = (Inr rs', s') \<and> length rs' = length rs
      \<and> (\<forall>i<length rs. if i \<in> set xs then P (rs ! i) (rs' ! i) else rs' ! i = rs ! i)"
  using assms
proof (induction xs arbitrary: rs s)
  case Nil
  then show ?case by (simp add: py_return_def)
next
  case (Cons x xs)
  from Cons.prems(3) have x: "x < length rs" by simp
  from Cons.prems(1)[of x rs s] x obtain d' t' where
    b: "body x rs s = (Inr (rs[x := d']), t')" "P (rs ! x) d'" by auto
  let ?rs1 = "rs[x := d']"
  have "\<exists>rs' s'. py_for xs body ?rs1 t' = (Inr rs', s') \<and> length rs' = length ?rs1
      \<and> (\<forall>i<length ?rs1. if i \<in> set xs then P (?rs1 ! i) (rs' ! i) else rs' ! i = ?rs1 ! i)"
  proof (rule Cons.IH)
    show "\<And>i rs t. i \<in> set xs \<Longrightarrow> i < length rs \<Longrightarrow>
        \<exists>d' t'. body i rs t = (Inr (rs[i := d']), t') \<and> P (rs ! i) d'"
      using Cons.prems(1) by simp
    show "distinct xs" using Cons.prems(2) by simp
    show "\<forall>i\<in>set xs. i < length ?rs1" using Cons.prems(3) by simp
  qed
  then obtain rs' s' where
    ih: "py_for xs body ?rs1 t' = (Inr rs', s')" "length rs' = length rs"
      "\<forall>i<length rs. if i \<in> set xs then P (?rs1 ! i) (rs' ! i) else rs' ! i = ?rs1 ! i"
    by auto
  have xn: "x \<notin> set xs" using Cons.prems(2) by simp
  have "\<forall>i<length rs. if i \<in> set (x # xs) then P (rs ! i) (rs' ! i) else rs' ! i = rs ! i"
  proof (intro allI impI)
    fix i assume i: "i < length rs"
    show "if i \<in> set (x # xs) then P (rs ! i) (rs' ! i) else rs' ! i = rs ! i"
    proof (cases "i = x")
      case True
      with ih(3) i xn b(2) show ?thesis by simp
    next
      case False
      with ih(3) i show ?thesis by (auto simp: nth_list_update)
    qed
  qed
  moreover have "py_for (x # xs) body rs s = (Inr rs', s')"
    using b(1) ih(1) by (simp add: py_bind_Inr)
  ultimately show ?case using ih(2) by blast
qed

lemma py_return_eq [simp]: "py_return x s = (r, t) \<longleftrightarrow> r = Inr x \<and> t = s"
  by (auto simp: py_return_def)

lemma py_map_fst:
  "py_map (\<lambda>h. py_bind (f h) (\<lambda>v. py_return (h, v))) names s = (Inr pairs, t)
     \<Longrightarrow> map fst pairs = names"
proof (induction names arbitrary: s pairs t)
  case Nil
  then show ?case by auto
next
  case (Cons h names)
  let ?g = "\<lambda>h. py_bind (f h) (\<lambda>v. py_return (h, v))"
  from Cons.prems have "py_bind (?g h) (\<lambda>y. py_bind (py_map ?g names) (\<lambda>ys. py_return (y # ys))) s
      = (Inr pairs, t)" by simp
  then obtain y s1 where y: "?g h s = (Inr y, s1)"
    and r: "py_bind (py_map ?g names) (\<lambda>ys. py_return (y # ys)) s1 = (Inr pairs, t)"
    unfolding py_bind_eq_Inr[of "?g h"] by blast
  from r obtain ps s2 where ps: "py_map ?g names s1 = (Inr ps, s2)"
    and e: "py_return (y # ps) s2 = (Inr pairs, t)"
    unfolding py_bind_eq_Inr[of "py_map ?g names"] by blast
  from y have "fst y = h" unfolding py_bind_eq_Inr[of "f h"] by auto
  moreover from Cons.IH[OF ps] have "map fst ps = names" .
  moreover from e have "pairs = y # ps" by simp
  ultimately show ?case by simp
qed

lemma keys_fold_setitem:
  "fst ` set (fold (\<lambda>(k, v) d. setitem d k v) pairs d0) = fst ` set d0 \<union> fst ` set pairs"
proof (induction pairs arbitrary: d0)
  case Nil
  then show ?case by simp
next
  case (Cons p pairs)
  obtain k v where p: "p = (k, v)" by (cases p)
  have "fst ` set (fold (\<lambda>(k, v) d. setitem d k v) (p # pairs) d0)
      = fst ` set (setitem d0 k v) \<union> fst ` set pairs"
    using Cons.IH[of "setitem d0 k v"] p by simp
  also have "\<dots> = fst ` set d0 \<union> fst ` set (p # pairs)"
    unfolding keys_setitem using p by auto
  finally show ?case .
qed

lemma keys_dict: "fst ` set (dict pairs) = fst ` set pairs"
  by (simp add: dict_def keys_fold_setitem)

lemma default_dict_keys:
  assumes "default_dict s = (Inr d, t)"
  shows "fst ` set d = fst ` set (hyperparams s)"
proof -
  from assms obtain pairs s1 where
    "py_map (\<lambda>hyp_name. py_bind (choose_default hyp_name) (\<lambda>v. py_return (hyp_name, v)))
          (map fst (hyperparams s)) s = (Inr pairs, s1)" "d = dict pairs"
    by (auto simp: default_dict_def py_bind_eq_Inr py_return_def)
  from py_map_fst[OF this(1)] this(2) show ?thesis
    by (metis keys_dict list.set_map)
qed

lemma default_search_total:
  fixes s :: "('v, 'w) state"
  assumes "default_safe s"
  shows "\<exists>ds s'. default_search n s = (Inr ds, s') \<and> length ds = nat n
      \<and> s' = after_calls default_dict (nat n) s
      \<and> (\<forall>i<nat n. same_config s (after_calls default_dict i s)
           \<and> default_dict (after_calls default_dict i s)
               = (Inr (ds ! i), after_calls default_dict (Suc i) s))"
proof -
  have "\<exists>ys s'. py_map (\<lambda>i. default_dict) (py_range n) s = (Inr ys, s')
      \<and> length ys = length (py_range n)
      \<and> s' = after_calls default_dict (length (py_range n)) s
      \<and> (\<forall>i<length (py_range n). same_config s (after_calls default_dict i s)
            \<and> default_dict (after_calls default_dict i s)
                = (Inr (ys ! i), after_calls default_dict (Suc i) s))"
  proof (rule py_map_calls[where I = "same_config s"])
    fix t :: "('v, 'w) state"
    assume t: "same_config s t"
    from default_safe_cong[OF t assms] have "default_safe t" .
    from default_dict_total[OF this] t
    show "\<exists>y t'. default_dict t = (Inr y, t') \<and> same_config s t'"
      by (blast intro: same_config_trans)
  qed simp
  then show ?thesis by (simp add: default_search_def py_range_def)
qed

lemma random_search_total:
  fixes s :: "('v, 'w) state"
  assumes "random_safe (hyperparams s)"
  shows "\<exists>ds s'. random_search n s = (Inr ds, s') \<and> length ds = nat n
      \<and> s' = after_calls random_dict (nat n) s
      \<and> (\<forall>i<nat n. same_config s (after_calls random_dict i s)
           \<and> random_dict (after_calls random_dict i s)
               = (Inr (ds ! i), after_calls random_dict (Suc i) s))"
proof -
  have "\<exists>ys s'. py_map (\<lambda>i. random_dict) (py_range n) s = (Inr ys, s')
      \<and> length ys = length (py_range n)
      \<and> s' = after_calls random_dict (length (py_range n)) s
      \<and> (\<forall>i<length (py_range n). same_config s (after_calls random_dict i s)
            \<and> random_dict (after_calls random_dict i s)
                = (Inr (ys ! i), after_calls random_dict (Suc i) s))"
  proof (rule py_map_calls[where I = "same_config s"])
    fix t :: "('v, 'w) state"
    assume t: "same_config s t"
    with assms have "random_safe (hyperparams t)" by (simp add: same_config_def)
    from random_dict_total[OF this] t
    show "\<exists>y t'. random_dict t = (Inr y, t') \<and> same_config s t'"
      by (blast intro: same_config_trans)
  qed simp
  then show ?thesis by (simp add: random_search_def py_range_def)
qed

text \<open>
  C7, as amended. When default resolution cannot fail, \<^verbatim>\<open>default_search(n)\<close> returns
  \<open>max n 0\<close> dictionaries, the \<open>i\<close>-th being what the \<open>i\<close>-th of that many
  \<^verbatim>\<open>default_dict()\<close> calls in a row returns. When every generator is a fixed value or
  a callable that never raises, \<^verbatim>\<open>random_search(n)\<close> returns \<open>max n 0\<close> dictionaries,
  the \<open>i\<close>-th being what the \<open>i\<close>-th \<^verbatim>\<open>random_dict()\<close> call returns.
\<close>

theorem searches_return_n:
  fixes s :: "('v, 'w) state"
  shows "(default_safe s \<longrightarrow>
      (\<exists>ds. fst (default_search n s) = Inr ds \<and> length ds = nat n
        \<and> (\<forall>i<nat n. default_dict (after_calls default_dict i s)
               = (Inr (ds ! i), after_calls default_dict (Suc i) s))))
    \<and> (random_safe (hyperparams s) \<longrightarrow>
      (\<exists>ds. fst (random_search n s) = Inr ds \<and> length ds = nat n
        \<and> (\<forall>i<nat n. random_dict (after_calls random_dict i s)
               = (Inr (ds ! i), after_calls random_dict (Suc i) s))))"
proof (intro conjI impI)
  assume "default_safe s"
  from default_search_total[OF this, of n]
  show "\<exists>ds. fst (default_search n s) = Inr ds \<and> length ds = nat n
        \<and> (\<forall>i<nat n. default_dict (after_calls default_dict i s)
               = (Inr (ds ! i), after_calls default_dict (Suc i) s))"
    by auto
next
  assume "random_safe (hyperparams s)"
  from random_search_total[OF this, of n]
  show "\<exists>ds. fst (random_search n s) = Inr ds \<and> length ds = nat n
        \<and> (\<forall>i<nat n. random_dict (after_calls random_dict i s)
               = (Inr (ds ! i), after_calls random_dict (Suc i) s))"
    by auto
qed

theorem searches_return_n_witness:
  "default_safe counter_example \<and> random_safe (hyperparams counter_example)
   \<and> (\<exists>ds. fst (default_search 2 counter_example) = Inr ds \<and> length ds = 2)
   \<and> (\<exists>ds. fst (random_search 2 counter_example) = Inr ds \<and> length ds = 2)
   \<and> fst (random_search 2 counter_example)
       = Inr [[(''a'', 1), (''c'', 0)], [(''a'', 1), (''c'', 1)]]
   \<and> default_safe list_example
   \<and> (\<exists>ds. fst (default_search 3 list_example) = Inr ds \<and> length ds = 3)"
proof -
  have nr: "never_raises (\<lambda>w. (Inr (int w), Suc w) :: (string + int) \<times> nat)"
    by (simp add: never_raises_def)
  have a: "default_safe counter_example"
    using nr by (simp add: default_safe_def counter_example_def)
  have b: "random_safe (hyperparams counter_example)"
    using nr by (simp add: random_safe_def counter_example_def)
  have c: "default_safe list_example"
    by (simp add: default_safe_def list_example_def)
  have d: "fst (random_search 2 counter_example)
       = Inr [[(''a'', 1), (''c'', 0)], [(''a'', 1), (''c'', 1)]]"
    by code_simp
  from a b c d searches_return_n[of counter_example 2] searches_return_n[of list_example 3]
  show ?thesis by auto
qed

text \<open>
  The claim as stated fails: an empty candidate list has no default, a negative \<open>n\<close>
  gives no dictionary, and a candidate list cannot be resolved at random.
\<close>

theorem searches_return_n_counterexample:
  "fst (default_search 1 empty_list_example) = Inl IndexError
   \<and> fst (default_search (- 1) fixed_example) = Inr []
   \<and> fst (random_search 1 list_example) = Inl (NameError ''np'')"
  by code_simp

lemma py_bind_assoc: "py_bind (py_bind m f) g = py_bind m (\<lambda>x. py_bind (f x) g)"
  by (rule ext) (simp add: py_bind_def split: prod.splits sum.splits)

lemma py_for_append:
  "py_for (xs @ ys) body acc = py_bind (py_for xs body acc) (py_for ys body)"
proof (induction xs arbitrary: acc)
  case Nil
  then show ?case by simp
next
  case (Cons x xs)
  have "py_for (xs @ ys) body = (\<lambda>acc. py_bind (py_for xs body acc) (py_for ys body))"
    by (rule ext) (rule Cons.IH)
  then show ?case by (simp add: py_bind_assoc)
qed

lemma py_for_snoc:
  "py_for (xs @ [x]) body acc = py_bind (py_for xs body acc) (body x)"
proof -
  have "py_for [x] body = body x"
    by (rule ext, rule ext) (simp add: py_bind_def py_return_def split: prod.splits sum.splits)
  then show ?thesis by (simp add: py_for_append)
qed

lemma overwrite_Nil [simp]: "overwrite d [] = d"
  by (simp add: overwrite_def)

lemma overwrite_Cons [simp]: "overwrite d ((k, v) # vs) = overwrite (setitem d k v) vs"
  by (simp add: overwrite_def)

lemma map_of_overwrite_other:
  "h \<notin> fst ` set vs \<Longrightarrow> map_of (overwrite d vs) h = map_of d h"
proof (induction vs arbitrary: d)
  case Nil
  then show ?case by simp
next
  case (Cons p vs)
  obtain k v where p: "p = (k, v)" by (cases p)
  with Cons show ?case by (simp add: map_of_setitem)
qed

lemma map_of_overwrite:
  "distinct (map fst vs) \<Longrightarrow> h \<in> fst ` set vs \<Longrightarrow> map_of (overwrite d vs) h = map_of vs h"
proof (induction vs arbitrary: d)
  case Nil
  then show ?case by simp
next
  case (Cons p vs)
  obtain k v where p: "p = (k, v)" by (cases p)
  show ?case
  proof (cases "h \<in> fst ` set vs")
    case True
    with Cons.prems p have "h \<noteq> k" by auto
    with Cons.IH[OF _ True, of "setitem d k v"] Cons.prems(1) p show ?thesis by simp
  next
    case False
    with Cons.prems(2) p have "h = k" by simp
    with False p show ?thesis by (simp add: map_of_overwrite_other map_of_setitem)
  qed
qed

lemma draw_round_Cons_Inr:
  "draw_round ((h, g) # ovs) t = (Inr vs, t') \<longleftrightarrow>
     (\<exists>v t1 vs'. generate_random g t = (Inr v, t1) \<and> draw_round ovs t1 = (Inr vs', t')
        \<and> vs = (h, v) # vs')"
  by (auto simp: draw_round_def py_bind_def py_return_def split: prod.splits sum.splits)

lemma draw_round_Cons_Inl:
  "draw_round ((h, g) # ovs) t = (Inl e, t') \<longleftrightarrow>
     generate_random g t = (Inl e, t')
     \<or> (\<exists>v t1. generate_random g t = (Inr v, t1) \<and> draw_round ovs t1 = (Inl e, t'))"
  by (auto simp: draw_round_def py_bind_def py_return_def split: prod.splits sum.splits)

lemma override_round:
  fixes t :: "('v, 'w) state"
  assumes "i < length rs" "draw_round ovs t = (Inr vs, t')"
  shows "py_for ovs (\<lambda>(hyp_name, hyp_gen) result_search.
           py_bind (generate_random hyp_gen) (\<lambda>v.
           setitem_at result_search i hyp_name v)) rs t
         = (Inr (rs[i := overwrite (rs ! i) vs]), t')"
  using assms
proof (induction ovs arbitrary: rs t vs)
  case Nil
  then show ?case by (simp add: draw_round_def py_return_def)
next
  case (Cons p ovs)
  obtain h g where p: "p = (h, g)" by (cases p)
  let ?body = "\<lambda>(hyp_name, hyp_gen) result_search.
           py_bind (generate_random hyp_gen) (\<lambda>v.
           setitem_at result_search i hyp_name v) :: ((string \<times> 'v) list list, ('v, 'w) state) py"
  from Cons.prems(2) p obtain v t1 vs' where
    v: "generate_random g t = (Inr v, t1)" "draw_round ovs t1 = (Inr vs', t')" "vs = (h, v) # vs'"
    by (auto simp: draw_round_Cons_Inr)
  let ?rs1 = "rs[i := setitem (rs ! i) h v]"
  have step: "?body p rs t = (Inr ?rs1, t1)"
    using v(1) Cons.prems(1) p by (simp add: py_bind_def setitem_at_def py_return_def)
  have len: "i < length ?rs1" using Cons.prems(1) by simp
  from Cons.IH[OF len v(2)]
  have "py_for ovs ?body ?rs1 t1 = (Inr (?rs1[i := overwrite (?rs1 ! i) vs']), t')" .
  moreover have "?rs1[i := overwrite (?rs1 ! i) vs'] = rs[i := overwrite (rs ! i) vs]"
    using Cons.prems(1) v(3) by simp
  ultimately show ?case using step by (simp add: py_bind_Inr)
qed

lemma override_round_raises:
  fixes t :: "('v, 'w) state"
  assumes "i < length rs" "draw_round ovs t = (Inl e, t')"
  shows "py_for ovs (\<lambda>(hyp_name, hyp_gen) result_search.
           py_bind (generate_random hyp_gen) (\<lambda>v.
           setitem_at result_search i hyp_name v)) rs t
         = (Inl e, t')"
  using assms
proof (induction ovs arbitrary: rs t)
  case Nil
  then show ?case by (simp add: draw_round_def py_return_def)
next
  case (Cons p ovs)
  obtain h g where p: "p = (h, g)" by (cases p)
  let ?body = "\<lambda>(hyp_name, hyp_gen) result_search.
           py_bind (generate_random hyp_gen) (\<lambda>v.
           setitem_at result_search i hyp_name v) :: ((string \<times> 'v) list list, ('v, 'w) state) py"
  from Cons.prems(2) p consider
    (now) "generate_random g t = (Inl e, t')"
    | (later) v t1 where "generate_random g t = (Inr v, t1)" "draw_round ovs t1 = (Inl e, t')"
    by (auto simp: draw_round_Cons_Inl)
  then show ?case
  proof cases
    case now
    then have "?body p rs t = (Inl e, t')" using p by (simp add: py_bind_def)
    then show ?thesis by (simp add: py_bind_Inl)
  next
    case later
    let ?rs1 = "rs[i := setitem (rs ! i) h v]"
    have step: "?body p rs t = (Inr ?rs1, t1)"
      using later(1) Cons.prems(1) p by (simp add: py_bind_def setitem_at_def py_return_def)
    have len: "i < length ?rs1" using Cons.prems(1) by simp
    from Cons.IH[OF len later(2)] step show ?thesis by (simp add: py_bind_Inr)
  qed
qed

lemma draw_round_total:
  fixes t :: "('v, 'w) state"
  assumes "random_safe ovs"
  shows "\<exists>vs t'. draw_round ovs t = (Inr vs, t') \<and> map fst vs = map fst ovs"
  using assms
proof (induction ovs arbitrary: t)
  case Nil
  then show ?case by (simp add: draw_round_def py_return_def)
next
  case (Cons p ovs)
  obtain h g where p: "p = (h, g)" by (cases p)
  from Cons.prems p have
    "case g of Candidates a \<Rightarrow> False | Factory f \<Rightarrow> never_raises f | FixedValue v \<Rightarrow> True"
    and safe: "random_safe ovs"
    by (auto simp: random_safe_def)
  from generate_random_total[OF this(1), of t] obtain v t1 where
    v: "generate_random g t = (Inr v, t1)" by blast
  from Cons.IH[OF safe, of t1] obtain vs t' where
    "draw_round ovs t1 = (Inr vs, t')" "map fst vs = map fst ovs" by blast
  with v p have "draw_round (p # ovs) t = (Inr ((h, v) # vs), t')
      \<and> map fst ((h, v) # vs) = map fst (p # ovs)"
    by (simp add: draw_round_Cons_Inr)
  then show ?case by blast
qed

lemma draw_round_always_raises:
  fixes t :: "('v, 'w) state"
  assumes "(h, Factory f) \<in> set ovs" "always_raises f"
  shows "\<exists>e t'. draw_round ovs t = (Inl e, t')"
  using assms(1)
proof (induction ovs arbitrary: t)
  case Nil
  then show ?case by simp
next
  case (Cons p ovs)
  obtain k g where p: "p = (k, g)" by (cases p)
  obtain r t1 where r: "generate_random g t = (r, t1)" by (cases "generate_random g t")
  show ?case
  proof (cases r)
    case (Inl e)
    with r p have "draw_round (p # ovs) t = (Inl e, t1)" by (simp add: draw_round_Cons_Inl)
    then show ?thesis by blast
  next
    case (Inr v)
    have "p \<noteq> (h, Factory f)"
    proof
      assume "p = (h, Factory f)"
      with p have g: "g = Factory f" by simp
      from assms(2) obtain msg w' where "f (ext t) = (Inl msg, w')"
        unfolding always_raises_def by blast
      with g r Inr show False by (simp add: call_def)
    qed
    with Cons.prems have "(h, Factory f) \<in> set ovs" by simp
    from Cons.IH[OF this, of t1] obtain e t' where "draw_round ovs t1 = (Inl e, t')" by blast
    with r Inr p have "draw_round (p # ovs) t = (Inl e, t')" by (simp add: draw_round_Cons_Inl)
    then show ?thesis by blast
  qed
qed

lemma override_rounds:
  fixes t :: "('v, 'w) state"
  assumes ok: "\<And>u. \<exists>vs u'. draw_round ovs u = (Inr vs, u')"
    and "m \<le> length rs"
  shows "\<exists>rs'. py_for [0..<m] (\<lambda>i result_search.
         py_for ovs (\<lambda>(hyp_name, hyp_gen) result_search.
           py_bind (generate_random hyp_gen) (\<lambda>v.
           setitem_at result_search i hyp_name v))
           result_search) rs t = (Inr rs', after_calls (draw_round ovs) m t)
      \<and> length rs' = length rs
      \<and> (\<forall>i<m. \<exists>vs. fst (draw_round ovs (after_calls (draw_round ovs) i t)) = Inr vs
             \<and> rs' ! i = overwrite (rs ! i) vs)
      \<and> (\<forall>j. m \<le> j \<longrightarrow> rs' ! j = rs ! j)"
  using assms(2)
proof (induction m)
  case 0
  then show ?case by (simp add: py_return_def)
next
  case (Suc m)
  let ?inner = "\<lambda>i result_search.
         py_for ovs (\<lambda>(hyp_name, hyp_gen) result_search.
           py_bind (generate_random hyp_gen) (\<lambda>v.
           setitem_at result_search i hyp_name v))
           result_search :: ((string \<times> 'v) list list, ('v, 'w) state) py"
  let ?u = "after_calls (draw_round ovs) m t"
  from Suc have "m \<le> length rs" by simp
  from Suc.IH[OF this] obtain rs' where
    ih: "py_for [0..<m] ?inner rs t = (Inr rs', ?u)" "length rs' = length rs"
      "\<forall>i<m. \<exists>vs. fst (draw_round ovs (after_calls (draw_round ovs) i t)) = Inr vs
             \<and> rs' ! i = overwrite (rs ! i) vs"
      "\<forall>j. m \<le> j \<longrightarrow> rs' ! j = rs ! j"
    by blast
  from ok[of ?u] obtain vs u' where vs: "draw_round ovs ?u = (Inr vs, u')" by blast
  then have u': "u' = after_calls (draw_round ovs) (Suc m) t" by (simp add: after_calls_def)
  have m: "m < length rs'" using Suc.prems ih(2) by simp
  let ?rs2 = "rs'[m := overwrite (rs' ! m) vs]"
  from override_round[OF m vs] have inner: "?inner m rs' ?u = (Inr ?rs2, u')" .
  have "py_for [0..<Suc m] ?inner rs t = (Inr ?rs2, u')"
    using ih(1) inner by (simp add: py_for_snoc py_bind_Inr)
  moreover have "length ?rs2 = length rs" using ih(2) by simp
  moreover have "\<forall>i<Suc m. \<exists>vs. fst (draw_round ovs (after_calls (draw_round ovs) i t)) = Inr vs
             \<and> ?rs2 ! i = overwrite (rs ! i) vs"
  proof (intro allI impI)
    fix i assume i: "i < Suc m"
    show "\<exists>vs. fst (draw_round ovs (after_calls (draw_round ovs) i t)) = Inr vs
             \<and> ?rs2 ! i = overwrite (rs ! i) vs"
    proof (cases "i = m")
      case True
      with vs m ih(4) show ?thesis by simp
    next
      case False
      with i have "i < m" by simp
      with ih(3) False show ?thesis by simp
    qed
  qed
  moreover have "\<forall>j. Suc m \<le> j \<longrightarrow> ?rs2 ! j = rs ! j"
    using ih(4) by simp
  ultimately show ?case using u' by blast
qed

text \<open>
  C8, as amended. Let default resolution be unable to fail and the overrides be a
  dictionary. When the overrides are fixed values or callables that never raise,
  \<^verbatim>\<open>custom_search(overrides, n)\<close> returns \<open>max n 0\<close> dictionaries; in each, every overridden
  name holds a draw of its override (a fixed value: that value), every other key holds
  what the default dictionary of the same index holds, and the keys are the
  hyperparameters and the overridden names, known or not: overrides are not validated.
  The draws are fresh: dictionary \<open>i\<close> is the default dictionary \<open>i\<close> overwritten with the
  values of round \<open>i\<close> of draws, the rounds being made one after the other once the default
  dictionaries are built. When \<open>n \<ge> 1\<close> and some override is a callable that always
  raises, the call raises.
\<close>

theorem custom_search_overrides:
  fixes s :: "('v, 'w) state"
  assumes safe: "default_safe s" and dist: "distinct (map fst overrides)"
  shows "(random_safe overrides \<longrightarrow>
      (\<exists>ds rs. fst (default_search n s) = Inr ds \<and> fst (custom_search overrides n s) = Inr rs
      \<and> length ds = nat n \<and> length rs = nat n
      \<and> (\<forall>i<nat n.
            fst ` set (ds ! i) = fst ` set (hyperparams s)
          \<and> (\<forall>(h, g) \<in> set overrides. \<exists>v. map_of (rs ! i) h = Some v \<and> draw_of g v)
          \<and> (\<forall>h. h \<notin> fst ` set overrides \<longrightarrow> map_of (rs ! i) h = map_of (ds ! i) h)
          \<and> fst ` set (rs ! i) = fst ` set (hyperparams s) \<union> fst ` set overrides
          \<and> (\<exists>vs. fst (draw_round overrides
                        (after_calls (draw_round overrides) i (snd (default_search n s))))
                     = Inr vs
                 \<and> map fst vs = map fst overrides
                 \<and> rs ! i = overwrite (ds ! i) vs
                 \<and> (\<forall>h \<in> fst ` set overrides. map_of (rs ! i) h = map_of vs h)))))
    \<and> (1 \<le> n \<and> (\<exists>h f. (h, Factory f) \<in> set overrides \<and> always_raises f) \<longrightarrow>
         (\<exists>e. fst (custom_search overrides n s) = Inl e))"
proof (intro conjI impI)
  assume ov: "random_safe overrides"
  from default_search_total[OF safe, of n] obtain ds t where
    ds: "default_search n s = (Inr ds, t)" "length ds = nat n"
      "\<forall>i<nat n. same_config s (after_calls default_dict i s)
           \<and> default_dict (after_calls default_dict i s)
               = (Inr (ds ! i), after_calls default_dict (Suc i) s)"
    by blast
  have keys: "fst ` set (ds ! i) = fst ` set (hyperparams s)" if "i < nat n" for i
  proof -
    from ds(3) that have "same_config s (after_calls default_dict i s)"
      "default_dict (after_calls default_dict i s)
               = (Inr (ds ! i), after_calls default_dict (Suc i) s)" by auto
    from default_dict_keys[OF this(2)] this(1) show ?thesis by (simp add: same_config_def)
  qed
  let ?P = "\<lambda>d d'. (\<forall>(h, g) \<in> set overrides. \<exists>v. map_of d' h = Some v \<and> draw_of g v)
      \<and> (\<forall>h. h \<notin> fst ` set overrides \<longrightarrow> map_of d' h = map_of d h)
      \<and> fst ` set d' = fst ` set d \<union> fst ` set overrides"
  let ?inner = "\<lambda>i result_search.
         py_for overrides (\<lambda>(hyp_name, hyp_gen) result_search.
           py_bind (generate_random hyp_gen) (\<lambda>v.
           setitem_at result_search i hyp_name v))
           result_search :: ((string \<times> 'v) list list, ('v, 'w) state) py"
  have "\<exists>rs' s'. py_for (py_range n) ?inner ds t = (Inr rs', s') \<and> length rs' = length ds
      \<and> (\<forall>i<length ds. if i \<in> set (py_range n) then ?P (ds ! i) (rs' ! i) else rs' ! i = ds ! i)"
  proof (rule py_for_indexwise)
    fix i and rs :: "(string \<times> 'v) list list" and u :: "('v, 'w) state"
    assume "i < length rs"
    from override_loop[OF this ov dist, of u]
    show "\<exists>d' t'. ?inner i rs u = (Inr (rs[i := d']), t') \<and> ?P (rs ! i) d'"
      by (auto simp: set_map[symmetric] simp del: set_map)
  next
    show "distinct (py_range n)" by (simp add: py_range_def)
    show "\<forall>i\<in>set (py_range n). i < length ds" using ds(2) by (simp add: py_range_def)
  qed
  then obtain rs s' where
    rs: "py_for (py_range n) ?inner ds t = (Inr rs, s')" "length rs = length ds"
      "\<forall>i<length ds. if i \<in> set (py_range n) then ?P (ds ! i) (rs ! i) else rs ! i = ds ! i"
    by blast
  have cs: "custom_search overrides n s = (Inr rs, s')"
    using ds(1) rs(1) by (simp add: custom_search_def py_bind_Inr)
  have P: "?P (ds ! i) (rs ! i)" if "i < nat n" for i
    using rs(3) ds(2) that by (simp add: py_range_def)
  have tot: "\<exists>vs u'. draw_round overrides u = (Inr vs, u')" for u :: "('v, 'w) state"
    using draw_round_total[OF ov, of u] by blast
  have le: "nat n \<le> length ds" using ds(2) by simp
  from override_rounds[of overrides "nat n" ds t, OF tot le] obtain rs2 where
    r2: "py_for [0..<nat n] ?inner ds t = (Inr rs2, after_calls (draw_round overrides) (nat n) t)"
      "\<forall>i<nat n. \<exists>vs. fst (draw_round overrides (after_calls (draw_round overrides) i t)) = Inr vs
             \<and> rs2 ! i = overwrite (ds ! i) vs"
    by blast
  from r2(1) rs(1) have eq: "rs2 = rs" by (simp add: py_range_def)
  have t: "snd (default_search n s) = t" using ds(1) by simp
  have fresh: "\<exists>vs. fst (draw_round overrides
                        (after_calls (draw_round overrides) i (snd (default_search n s))))
                     = Inr vs
                 \<and> map fst vs = map fst overrides
                 \<and> rs ! i = overwrite (ds ! i) vs
                 \<and> (\<forall>h \<in> fst ` set overrides. map_of (rs ! i) h = map_of vs h)"
    if i: "i < nat n" for i
  proof -
    let ?u = "after_calls (draw_round overrides) i t"
    from r2(2) i eq obtain vs where
      vs: "fst (draw_round overrides ?u) = Inr vs" "rs ! i = overwrite (ds ! i) vs"
      by blast
    from draw_round_total[OF ov, of ?u] obtain vs' u' where
      "draw_round overrides ?u = (Inr vs', u')" "map fst vs' = map fst overrides" by blast
    with vs(1) have fstvs: "map fst vs = map fst overrides" by simp
    have dv: "distinct (map fst vs)" using fstvs dist by simp
    have "set (map fst vs) = set (map fst overrides)" using fstvs by simp
    then have sv: "fst ` set vs = fst ` set overrides" by simp
    have "map_of (rs ! i) h = map_of vs h" if "h \<in> fst ` set overrides" for h
    proof -
      from that sv have "h \<in> fst ` set vs" by simp
      from map_of_overwrite[OF dv this, of "ds ! i"] vs(2) show ?thesis by simp
    qed
    then have mo: "\<forall>h \<in> fst ` set overrides. map_of (rs ! i) h = map_of vs h" by blast
    have v1: "fst (draw_round overrides
                        (after_calls (draw_round overrides) i (snd (default_search n s))))
                     = Inr vs"
      using vs(1) t by simp
    from v1 fstvs vs(2) mo show ?thesis
      by - (rule exI[of _ vs], intro conjI; assumption)
  qed
  have per: "fst ` set (ds ! i) = fst ` set (hyperparams s)
          \<and> (\<forall>(h, g) \<in> set overrides. \<exists>v. map_of (rs ! i) h = Some v \<and> draw_of g v)
          \<and> (\<forall>h. h \<notin> fst ` set overrides \<longrightarrow> map_of (rs ! i) h = map_of (ds ! i) h)
          \<and> fst ` set (rs ! i) = fst ` set (hyperparams s) \<union> fst ` set overrides
          \<and> (\<exists>vs. fst (draw_round overrides
                        (after_calls (draw_round overrides) i (snd (default_search n s))))
                     = Inr vs
                 \<and> map fst vs = map fst overrides
                 \<and> rs ! i = overwrite (ds ! i) vs
                 \<and> (\<forall>h \<in> fst ` set overrides. map_of (rs ! i) h = map_of vs h))"
    if i: "i < nat n" for i
  proof -
    note Pi = P[OF i]
    have k: "fst ` set (rs ! i) = fst ` set (hyperparams s) \<union> fst ` set overrides"
      using Pi keys[OF i] by simp
    from keys[OF i] Pi[THEN conjunct1] Pi[THEN conjunct2, THEN conjunct1] k fresh[OF i]
    show ?thesis by - (intro conjI; assumption)
  qed
  have h1: "fst (default_search n s) = Inr ds" using ds(1) by simp
  have h2: "fst (custom_search overrides n s) = Inr rs" using cs by simp
  have h4: "length rs = nat n" using rs(2) ds(2) by simp
  have h5: "\<forall>i<nat n. fst ` set (ds ! i) = fst ` set (hyperparams s)
          \<and> (\<forall>(h, g) \<in> set overrides. \<exists>v. map_of (rs ! i) h = Some v \<and> draw_of g v)
          \<and> (\<forall>h. h \<notin> fst ` set overrides \<longrightarrow> map_of (rs ! i) h = map_of (ds ! i) h)
          \<and> fst ` set (rs ! i) = fst ` set (hyperparams s) \<union> fst ` set overrides
          \<and> (\<exists>vs. fst (draw_round overrides
                        (after_calls (draw_round overrides) i (snd (default_search n s))))
                     = Inr vs
                 \<and> map fst vs = map fst overrides
                 \<and> rs ! i = overwrite (ds ! i) vs
                 \<and> (\<forall>h \<in> fst ` set overrides. map_of (rs ! i) h = map_of vs h))"
    by (intro allI impI) (rule per)
  from h1 h2 ds(2) h4 h5
  show "\<exists>ds rs. fst (default_search n s) = Inr ds \<and> fst (custom_search overrides n s) = Inr rs
      \<and> length ds = nat n \<and> length rs = nat n
      \<and> (\<forall>i<nat n.
            fst ` set (ds ! i) = fst ` set (hyperparams s)
          \<and> (\<forall>(h, g) \<in> set overrides. \<exists>v. map_of (rs ! i) h = Some v \<and> draw_of g v)
          \<and> (\<forall>h. h \<notin> fst ` set overrides \<longrightarrow> map_of (rs ! i) h = map_of (ds ! i) h)
          \<and> fst ` set (rs ! i) = fst ` set (hyperparams s) \<union> fst ` set overrides
          \<and> (\<exists>vs. fst (draw_round overrides
                        (after_calls (draw_round overrides) i (snd (default_search n s))))
                     = Inr vs
                 \<and> map fst vs = map fst overrides
                 \<and> rs ! i = overwrite (ds ! i) vs
                 \<and> (\<forall>h \<in> fst ` set overrides. map_of (rs ! i) h = map_of vs h)))"
    by - (rule exI[of _ ds], rule exI[of _ rs], intro conjI; assumption)
next
  assume a: "1 \<le> n \<and> (\<exists>h f. (h, Factory f) \<in> set overrides \<and> always_raises f)"
  then obtain h f where hf: "(h, Factory f) \<in> set overrides" "always_raises f" by blast
  from default_search_total[OF safe, of n] obtain ds t where
    ds: "default_search n s = (Inr ds, t)" "length ds = nat n" by blast
  from a ds(2) have len: "0 < length ds" by simp
  from draw_round_always_raises[OF hf, of t] obtain e t' where
    "draw_round overrides t = (Inl e, t')" by blast
  from override_round_raises[OF len this]
  have inner: "py_for overrides (\<lambda>(hyp_name, hyp_gen) result_search.
           py_bind (generate_random hyp_gen) (\<lambda>v.
           setitem_at result_search 0 hyp_name v)) ds t = (Inl e, t')" .
  from a have "0 < nat n" by simp
  from upt_conv_Cons[OF this] have "py_range n = 0 # [Suc 0..<nat n]" by (simp add: py_range_def)
  with ds(1) inner have "custom_search overrides n s = (Inl e, t')"
    by (simp add: custom_search_def py_bind_Inr py_bind_Inl)
  then show "\<exists>e. fst (custom_search overrides n s) = Inl e" by simp
qed

theorem custom_search_overrides_witness:
  "default_safe fixed_example \<and> random_safe [(''z'', FixedValue (99::int))]
   \<and> (\<exists>rs. fst (custom_search [(''z'', FixedValue 99)] 3 fixed_example) = Inr rs
         \<and> length rs = 3 \<and> (\<forall>i<3. map_of (rs ! i) ''z'' = Some 99))
   \<and> fst (custom_search [(''z'', FixedValue 99)] 3 fixed_example)
       = Inr (replicate 3 [(''a'', 1), (''b'', 2), (''z'', 99)])
   \<and> default_safe counter_example
   \<and> random_safe [(''z'', Factory (\<lambda>w :: nat. (Inr (int w), Suc w)))]
   \<and> (\<exists>rs. fst (custom_search [(''z'', Factory (\<lambda>w. (Inr (int w), Suc w)))] 2 counter_example)
            = Inr rs \<and> length rs = 2)
   \<and> fst (custom_search [(''z'', Factory (\<lambda>w. (Inr (int w), Suc w)))] 2 counter_example)
       = Inr [[(''a'', 1), (''c'', 0), (''z'', 2)], [(''a'', 1), (''c'', 1), (''z'', 3)]]
   \<and> always_raises (\<lambda>w :: unit. (Inl ''boom'' :: string + int, w))
   \<and> (\<exists>e. fst (custom_search [(''z'', Factory (\<lambda>w. (Inl ''boom'', w)))] 1 fixed_example) = Inl e)"
proof -
  have a: "default_safe fixed_example"
    by (simp add: default_safe_def fixed_example_def)
  have b: "random_safe [(''z'', FixedValue (99::int)) :: string \<times> (int, unit) generator]"
    by (simp add: random_safe_def)
  have c: "fst (custom_search [(''z'', FixedValue 99)] 3 fixed_example)
       = Inr (replicate 3 [(''a'', 1), (''b'', 2), (''z'', 99)])"
    by code_simp
  have d: "distinct (map fst [(''z'', g)])" for g :: "('v, 'w) generator"
    by simp
  from custom_search_overrides[OF a d, of "FixedValue 99" 3, THEN conjunct1] b obtain rs where
    rs: "fst (custom_search [(''z'', FixedValue 99)] 3 fixed_example) = Inr rs" "length rs = 3"
      "\<forall>i<3. \<forall>(h, g) \<in> set [(''z'', FixedValue (99::int)) :: string \<times> (int, unit) generator].
          \<exists>v. map_of (rs ! i) h = Some v \<and> draw_of g v"
    by auto
  from rs(3) have "\<forall>i<3. map_of (rs ! i) ''z'' = Some 99"
    by (simp add: draw_of_def)
  with rs(1,2) have 1: "\<exists>rs. fst (custom_search [(''z'', FixedValue 99)] 3 fixed_example) = Inr rs
         \<and> length rs = 3 \<and> (\<forall>i<3. map_of (rs ! i) ''z'' = Some 99)" by blast
  have nr: "never_raises (\<lambda>w :: nat. (Inr (int w) :: string + int, Suc w))"
    by (simp add: never_raises_def)
  have e: "default_safe counter_example"
    using nr by (simp add: default_safe_def counter_example_def)
  have f: "random_safe [(''z'', Factory (\<lambda>w :: nat. (Inr (int w), Suc w)))
             :: string \<times> (int, nat) generator]"
    using nr by (simp add: random_safe_def)
  have g: "fst (custom_search [(''z'', Factory (\<lambda>w. (Inr (int w), Suc w)))] 2 counter_example)
       = Inr [[(''a'', 1), (''c'', 0), (''z'', 2)], [(''a'', 1), (''c'', 1), (''z'', 3)]]"
    by code_simp
  from custom_search_overrides[OF e d, of "Factory (\<lambda>w. (Inr (int w), Suc w))" 2,
      THEN conjunct1] f
  have 2: "\<exists>rs. fst (custom_search [(''z'', Factory (\<lambda>w. (Inr (int w), Suc w)))] 2 counter_example)
            = Inr rs \<and> length rs = 2"
    by auto
  have ar: "always_raises (\<lambda>w :: unit. (Inl ''boom'' :: string + int, w))"
    by (simp add: always_raises_def)
  from custom_search_overrides[OF a d, of "Factory (\<lambda>w. (Inl ''boom'', w))" 1,
      THEN conjunct2] ar
  have 3: "\<exists>e. fst (custom_search [(''z'', Factory (\<lambda>w. (Inl ''boom'', w)))] 1 fixed_example)
             = Inl e"
    by auto
  from a b c 1 e f g 2 ar 3 show ?thesis by (simp add: random_safe_def never_raises_def)
qed

text \<open>
  The claim as stated fails: an override that raises is not caught, and an override
  that is a candidate list cannot be resolved.
\<close>

theorem custom_search_overrides_counterexample:
  "fst (custom_search [(''z'', Factory (\<lambda>w. (Inl ''boom'', w)))] 1 fixed_example)
     = Inl (Raised ''boom'')
   \<and> fst (custom_search [(''z'', Candidates 0)] 1 list_example) = Inl (NameError ''np'')"
  by code_simp

section \<open>What sampling leaves unchanged\<close>

lemma frame_refl [simp]: "frame s s"
  by (simp add: frame_def)

lemma frame_trans: "frame s t \<Longrightarrow> frame t u \<Longrightarrow> frame s u"
  by (auto simp: frame_def)

lemma index_None: "index xs d = None \<longleftrightarrow> d \<notin> set xs"
  by (induction xs) auto

lemma index_pop: "index xs d = Some i \<Longrightarrow> pop xs i = remove1 d xs"
proof (induction xs arbitrary: i)
  case Nil
  then show ?case by simp
next
  case (Cons x xs)
  show ?case
  proof (cases "x = d")
    case True
    with Cons.prems show ?thesis by (simp add: pop_def)
  next
    case False
    with Cons.prems obtain j where j: "index xs d = Some j" "i = Suc j" by auto
    from Cons.IH[OF j(1)] False j(2) show ?thesis by (simp add: pop_def)
  qed
qed

lemma py_map_pure:
  assumes "\<And>x. x \<in> set xs \<Longrightarrow> f x s = (Inr (g x), s)"
  shows "py_map f xs s = (Inr (map g xs), s)"
  using assms by (induction xs) (simp_all add: py_bind_def py_return_def)

lemma frame_lists:
  assumes "frame s t" "wf_state s" "map_of (hyperparams s) h = Some (Candidates a)"
  shows "lists t a = lists s a" "a < next_addr s"
proof -
  from assms(3) have "(h, Candidates a) \<in> set (hyperparams s)" by (rule map_of_SomeD)
  with assms(2) show "a < next_addr s" unfolding wf_state_def by blast
  with assms(1) show "lists t a = lists s a" by (simp add: frame_def)
qed

lemma choose_default_static:
  assumes fr: "frame s t" and wf: "wf_state s" and d: "resolved_default s h = Some d"
  shows "choose_default h t = (Inr d, t)"
proof (cases "map_of (hyp_defaults s) h")
  case (Some v)
  with d fr show ?thesis
    by (simp add: resolved_default_def choose_default_def py_return_def frame_def)
next
  case None
  show ?thesis
  proof (cases "map_of (hyperparams s) h")
    case None
    with d \<open>map_of (hyp_defaults s) h = None\<close> show ?thesis
      by (simp add: resolved_default_def)
  next
    case (Some g)
    show ?thesis
    proof (cases g)
      case (Candidates a)
      from frame_lists[OF fr wf Some[unfolded Candidates]] have l: "lists t a = lists s a" by simp
      from d None Some Candidates obtain xs where "lists s a = d # xs"
        by (auto simp: resolved_default_def split: list.splits)
      with l None Some Candidates fr show ?thesis
        by (simp add: choose_default_def getitem_def getitem_list_def py_bind_def py_return_def frame_def)
    next
      case (Factory f)
      with d None Some show ?thesis by (simp add: resolved_default_def)
    next
      case (FixedValue v)
      with d None Some fr show ?thesis
        by (simp add: resolved_default_def choose_default_def getitem_def py_bind_def py_return_def frame_def)
    qed
  qed
qed

lemma choose_default_list_None:
  assumes fr: "frame s t" and wf: "wf_state s"
    and g: "map_of (hyperparams s) h = Some (Candidates a)"
    and d: "resolved_default s h = None"
  shows "choose_default h t = (Inl IndexError, t)"
proof -
  from d g have None: "map_of (hyp_defaults s) h = None" and e: "lists s a = []"
    by (auto simp: resolved_default_def split: option.splits list.splits)
  from frame_lists[OF fr wf g] e have "lists t a = []" by simp
  with None g fr show ?thesis
    by (simp add: choose_default_def getitem_def getitem_list_def py_bind_def py_return_def
        py_raise_def frame_def)
qed

lemma frame_with_list: "frame s t \<Longrightarrow> frame s (with_list t xs)"
  by (auto simp: frame_def with_list_def)

lemma non_default_step_cases:
  fixes s t :: "('v, 'w) state"
  assumes fr: "frame s t" and wf: "wf_state s"
    and g: "map_of (hyperparams s) h = Some (Candidates a)"
  shows "non_default_step h acc t =
     (case resolved_default s h of
        None \<Rightarrow> (Inl IndexError, with_list t (lists s a))
      | Some d \<Rightarrow>
          if d \<in> set (lists s a)
          then (Inr (setitem acc h (next_addr t)), with_list t (remove1 d (lists s a)))
          else (Inl ValueError, with_list t (lists s a)))"
proof -
  from frame_lists[OF fr wf g] have l: "lists t a = lists s a" by simp
  from fr g have gt: "map_of (hyperparams t) h = Some (Candidates a)" by (simp add: frame_def)
  let ?t1 = "with_list t (lists s a)"
  have copy: "py_bind (\<lambda>s. getitem (hyperparams s) h s) (\<lambda>generator.
     py_bind (list_of generator) F) t = F (next_addr t) ?t1" for F :: "addr \<Rightarrow> ('x, ('v, 'w) state) py"
    using gt l by (simp add: py_bind_def getitem_def py_return_def list_copy_def with_list_def)
  have fr1: "frame s ?t1" using fr by (rule frame_with_list)
  have rd: "lists ?t1 (next_addr t) = lists s a" by (simp add: with_list_def)
  show ?thesis
  proof (cases "resolved_default s h")
    case None
    from choose_default_list_None[OF fr1 wf g None] None show ?thesis
      unfolding non_default_step_def copy by (simp add: py_bind_def)
  next
    case (Some d)
    from choose_default_static[OF fr1 wf Some] have cd: "choose_default h ?t1 = (Inr d, ?t1)" .
    show ?thesis
    proof (cases "d \<in> set (lists s a)")
      case False
      then have "index (lists s a) d = None" by (simp add: index_None)
      with cd rd Some False show ?thesis
        unfolding non_default_step_def copy by (simp add: py_bind_def py_raise_def)
    next
      case True
      then obtain i where i: "index (lists s a) d = Some i"
        by (metis index_None not_None_eq)
      have "(with_list t (lists s a))\<lparr>lists := (lists (with_list t (lists s a)))
              (next_addr t := remove1 d (lists s a))\<rparr> = with_list t (remove1 d (lists s a))"
        by (simp add: with_list_def)
      with cd rd Some True i index_pop[OF i] show ?thesis
        unfolding non_default_step_def copy
        by (simp add: py_bind_def py_return_def list_write_def)
    qed
  qed
qed

lemma preservesD: "preserves R m \<Longrightarrow> m s = (r, t) \<Longrightarrow> R s t"
  by (auto simp: preserves_def)

lemma preserves_return: "reflp R \<Longrightarrow> preserves R (py_return x)"
  by (auto simp: preserves_def py_return_def reflp_def)

lemma preserves_raise: "reflp R \<Longrightarrow> preserves R (py_raise e)"
  by (auto simp: preserves_def py_raise_def reflp_def)

lemma preserves_bind:
  assumes "transp R" "preserves R m" "\<And>x. preserves R (f x)"
  shows "preserves R (py_bind m f)"
  unfolding preserves_def
proof (intro allI impI)
  fix s r t
  assume a: "py_bind m f s = (r, t)"
  obtain r1 s1 where m: "m s = (r1, s1)" by (cases "m s")
  with assms(2) have R1: "R s s1" by (rule preservesD)
  show "R s t"
  proof (cases r1)
    case (Inl e)
    with a m R1 show ?thesis by (simp add: py_bind_def)
  next
    case (Inr x)
    with a m have "f x s1 = (r, t)" by (simp add: py_bind_def)
    with assms(3) have "R s1 t" by (rule preservesD)
    with R1 assms(1) show ?thesis by (auto dest: transpD)
  qed
qed

lemma preserves_map:
  assumes "reflp R" "transp R" "\<And>x. preserves R (f x)"
  shows "preserves R (py_map f xs)"
  by (induction xs) (simp_all add: assms preserves_return preserves_bind)

lemma preserves_for:
  assumes "reflp R" "transp R" "\<And>x acc. preserves R (body x acc)"
  shows "preserves R (py_for xs body acc)"
  by (induction xs arbitrary: acc) (simp_all add: assms preserves_return preserves_bind)

lemma preserves_read:
  assumes "\<And>s0. preserves R (m s0)"
  shows "preserves R (\<lambda>s. m s s)"
  using assms by (auto simp: preserves_def)

lemma reflp_same_config: "reflp same_config"
  by (simp add: reflp_def)

lemma transp_same_config: "transp same_config"
  by (auto simp: transp_def intro: same_config_trans)

lemma reflp_frame: "reflp frame"
  by (simp add: reflp_def)

lemma transp_frame: "transp frame"
  by (auto simp: transp_def intro: frame_trans)

lemma same_config_frame: "same_config s t \<Longrightarrow> frame s t"
  by (simp add: same_config_def frame_def)

lemma preserves_weaken: "preserves R m \<Longrightarrow> (\<And>s t. R s t \<Longrightarrow> Q s t) \<Longrightarrow> preserves Q m"
  by (auto simp: preserves_def)

lemma preserves_getitem: "reflp R \<Longrightarrow> preserves R (getitem d k)"
  by (simp add: getitem_def preserves_return preserves_raise split: option.splits)

lemma preserves_getitem_list: "reflp R \<Longrightarrow> preserves R (getitem_list xs i)"
  by (simp add: getitem_list_def preserves_return preserves_raise)

lemma preserves_setitem_at: "reflp R \<Longrightarrow> preserves R (setitem_at rs i k v)"
  by (simp add: setitem_at_def preserves_return preserves_raise)

lemma keeps_call: "preserves same_config (call f)"
  by (auto simp: preserves_def call_def same_config_def split: prod.splits sum.splits)

lemma keeps_warn: "preserves same_config (warn m)"
  by (auto simp: preserves_def warn_def same_config_def)

lemmas keeps_intros =
  preserves_bind[OF transp_same_config] preserves_map[OF reflp_same_config transp_same_config]
  preserves_for[OF reflp_same_config transp_same_config]
  preserves_return[OF reflp_same_config] preserves_raise[OF reflp_same_config]
  preserves_getitem[OF reflp_same_config] preserves_getitem_list[OF reflp_same_config]
  preserves_setitem_at[OF reflp_same_config] keeps_call keeps_warn

lemma preserves_case_prod:
  "(\<And>a b. preserves R (f a b)) \<Longrightarrow> preserves R (case_prod f x)"
  by (cases x) simp

lemma preserves_case_prod_acc:
  "(\<And>a b. preserves R (f a b acc)) \<Longrightarrow> preserves R (case_prod f x acc)"
  by (cases x) simp

lemma keeps_generate_random: "preserves same_config (generate_random g)"
  by (cases g) (simp_all add: keeps_intros)

lemma keeps_choose_random: "preserves same_config (choose_random h)"
proof -
  have "preserves same_config (\<lambda>s. py_bind (getitem (hyperparams s) h) generate_random s)"
    by (rule preserves_read) (intro keeps_intros keeps_generate_random)
  then show ?thesis by (simp add: choose_random_def[abs_def])
qed

lemma keeps_choose_default:
  "preserves same_config (choose_default h :: ('v, ('v, 'w) state) py)"
  unfolding preserves_def
proof (intro allI impI)
  fix s t :: "('v, 'w) state" and r
  assume a: "choose_default h s = (r, t)"
  show "same_config s t"
  proof (cases "map_of (hyp_defaults s) h")
    case (Some v)
    with a show ?thesis by (auto simp: choose_default_def py_return_def)
  next
    case None
    show ?thesis
    proof (cases "map_of (hyperparams s) h")
      case None
      with a \<open>map_of (hyp_defaults s) h = None\<close> show ?thesis
        by (auto simp: choose_default_def getitem_def py_raise_def)
    next
      case (Some g)
      with a \<open>map_of (hyp_defaults s) h = None\<close> show ?thesis
        by (cases g)
           (auto simp: choose_default_def getitem_def py_return_def py_raise_def py_bind_def
              getitem_list_def warn_def call_def same_config_def
              split: if_splits prod.splits sum.splits)
    qed
  qed
qed

lemma keeps_default_dict: "preserves same_config default_dict"
proof -
  have "preserves same_config (\<lambda>s. py_bind
       (py_map (\<lambda>hyp_name. py_bind (choose_default hyp_name) (\<lambda>v. py_return (hyp_name, v)))
          (map fst (hyperparams s)))
       (\<lambda>pairs. py_return (dict pairs)) s)"
    by (rule preserves_read) (intro keeps_intros keeps_choose_default)
  then show ?thesis by (simp add: default_dict_def[abs_def])
qed

lemma keeps_random_dict: "preserves same_config random_dict"
proof -
  have "preserves same_config (\<lambda>s. py_bind
       (py_map (\<lambda>(hyp_name, hyp_gen). py_bind (choose_random hyp_name) (\<lambda>v. py_return (hyp_name, v)))
          (hyperparams s))
       (\<lambda>pairs. py_return (dict pairs)) s)"
    by (rule preserves_read)
       (intro keeps_intros preserves_case_prod keeps_choose_random)
  then show ?thesis by (simp add: random_dict_def[abs_def])
qed

lemma keeps_default_search: "preserves same_config (default_search n)"
  unfolding default_search_def by (intro keeps_intros keeps_default_dict)

lemma keeps_random_search: "preserves same_config (random_search n)"
  unfolding random_search_def by (intro keeps_intros keeps_random_dict)

lemma keeps_one_value_search: "preserves same_config (one_value_search interests n)"
  unfolding one_value_search_def Let_def
  by (auto intro!: keeps_intros keeps_default_search keeps_choose_random)

lemma keeps_custom_search: "preserves same_config (custom_search overwritten_hyp n)"
  unfolding custom_search_def
  by (intro keeps_intros keeps_default_search preserves_case_prod_acc keeps_generate_random)

lemmas frame_intros =
  preserves_bind[OF transp_frame] preserves_map[OF reflp_frame transp_frame]
  preserves_for[OF reflp_frame transp_frame]
  preserves_return[OF reflp_frame] preserves_raise[OF reflp_frame]
  preserves_getitem[OF reflp_frame] preserves_getitem_list[OF reflp_frame]
  preserves_setitem_at[OF reflp_frame]

lemma keeps_frame: "preserves same_config m \<Longrightarrow> preserves frame m"
  by (erule preserves_weaken) (rule same_config_frame)

lemma frame_non_default_step:
  "preserves frame (non_default_step h acc :: ((string \<times> addr) list, ('v, 'w) state) py)"
  unfolding preserves_def
proof (intro allI impI)
  fix s t :: "('v, 'w) state" and r
  assume a: "non_default_step h acc s = (r, t)"
  show "frame s t"
  proof (cases "map_of (hyperparams s) h")
    case None
    with a show ?thesis by (auto simp: non_default_step_def py_bind_def getitem_def py_raise_def)
  next
    case (Some g)
    show ?thesis
    proof (cases g)
      case (Candidates b)
      let ?s1 = "s\<lparr>lists := (lists s)(next_addr s := lists s b), next_addr := Suc (next_addr s)\<rparr>"
      obtain r2 s2 where cd: "choose_default h ?s1 = (r2, s2)" by (cases "choose_default h ?s1")
      with keeps_choose_default have sc: "same_config ?s1 s2" by (rule preservesD)
      show ?thesis
      proof (cases r2)
        case (Inl e)
        with a Some Candidates cd sc show ?thesis
          by (auto simp: non_default_step_def py_bind_def getitem_def py_return_def list_copy_def
              same_config_def frame_def)
      next
        case (Inr d)
        with a Some Candidates cd sc show ?thesis
          by (auto simp: non_default_step_def py_bind_def getitem_def py_return_def py_raise_def
              list_copy_def list_write_def same_config_def frame_def split: option.splits)
      qed
    next
      case (Factory f)
      with a Some show ?thesis
        by (auto simp: non_default_step_def py_bind_def getitem_def py_return_def py_raise_def)
    next
      case (FixedValue v)
      with a Some show ?thesis
        by (auto simp: non_default_step_def py_bind_def getitem_def py_return_def py_raise_def)
    qed
  qed
qed

lemma keeps_fill_step:
  "preserves same_config
     (fill_step ndh h acc :: ((string \<times> 'v) list list \<times> nat, ('v, 'w) state) py)"
proof -
  have "preserves same_config (\<lambda>s :: ('v, 'w) state.
       py_for (lists s l) (\<lambda>value (result_search, search_i).
         py_bind (setitem_at result_search search_i h value) (\<lambda>result_search.
         py_return (result_search, search_i + 1))) acc s)" for l
    by (rule preserves_read) (intro keeps_intros preserves_case_prod)
  then show ?thesis unfolding fill_step_def by (intro keeps_intros)
qed

lemma keeps_len: "preserves same_config (len g)"
proof (cases g)
  case (Candidates a)
  have "preserves same_config (\<lambda>s :: ('a, 'b) state. py_return (int (length (lists s a))) s)"
    by (rule preserves_read) (intro keeps_intros)
  with Candidates show ?thesis by simp
qed (simp_all add: keeps_intros)

lemma keeps_lookup:
  assumes "\<And>g. preserves same_config (F g)"
  shows "preserves same_config (py_bind (\<lambda>s. getitem (hyperparams s) h s) F)"
proof (rule preserves_bind[OF transp_same_config])
  show "preserves same_config (\<lambda>s. getitem (hyperparams s) h s)"
    by (rule preserves_read) (intro keeps_intros)
qed (rule assms)

lemma frame_one_value_grid_search:
  "preserves frame
     (one_value_grid_search interests :: ((string \<times> 'v) list list, ('v, 'w) state) py)"
  unfolding one_value_grid_search_def Let_def
proof (rule preserves_bind[OF transp_frame])
  show "preserves frame (py_map (\<lambda>interest.
                py_bind (\<lambda>s :: ('v, 'w) state. getitem (hyperparams s) interest s)
                  (\<lambda>g. py_return (is_list g))) interests)"
    by (intro keeps_frame keeps_intros keeps_lookup)
next
  fix flags
  show "preserves frame (if \<not> list_all id flags then py_raise (AssertionError [])
     else
       py_bind (py_map (\<lambda>interest. py_bind (\<lambda>s :: ('v, 'w) state. getitem (hyperparams s) interest s) len)
                interests) (\<lambda>lens.
       py_bind (py_for interests non_default_step []) (\<lambda>non_default_hyperparams.
       py_bind (default_search (sum_list lens + 1 - int (length interests))) (\<lambda>result_search.
       py_bind (py_for interests (fill_step non_default_hyperparams) (result_search, 1))
         (\<lambda>(result_search :: (string \<times> 'v) list list, search_i).
           if int search_i = sum_list lens + 1 - int (length interests) then py_return result_search
           else py_raise (AssertionError []))))))"
  proof (cases "list_all id flags")
    case False
    then show ?thesis by (simp add: frame_intros)
  next
    case True
    have fin: "preserves frame (case x of (result_search :: (string \<times> 'v) list list, search_i :: nat) \<Rightarrow>
           if int search_i = k then py_return result_search
           else (py_raise (AssertionError []) :: ((string \<times> 'v) list list, ('v, 'w) state) py))" for x k
      by (cases x) (simp add: frame_intros)
    from True show ?thesis
      by (simp only: not_True_eq_False if_False not_not)
         (intro frame_intros frame_non_default_step fin
            keeps_frame[OF keeps_default_search] keeps_frame[OF keeps_fill_step]
            keeps_frame[OF keeps_lookup] keeps_len)
  qed
qed

lemma preserves_snd: "preserves R m \<Longrightarrow> R s (snd (m s))"
  by (cases "m s") (auto dest: preservesD)

lemma frame_perform: "frame s (perform c s)"
proof (cases c)
  case DefaultDict
  then show ?thesis
    using preserves_snd[OF keeps_frame[OF keeps_default_dict]] by simp
next
  case RandomDict
  then show ?thesis
    using preserves_snd[OF keeps_frame[OF keeps_random_dict]] by simp
next
  case (DefaultSearch n)
  then show ?thesis
    using preserves_snd[OF keeps_frame[OF keeps_default_search]] by simp
next
  case (RandomSearch n)
  then show ?thesis
    using preserves_snd[OF keeps_frame[OF keeps_random_search]] by simp
next
  case (OneValueSearch interests n)
  then show ?thesis
    using preserves_snd[OF keeps_frame[OF keeps_one_value_search]] by simp
next
  case (OneValueGridSearch interests)
  then show ?thesis
    using preserves_snd[OF frame_one_value_grid_search] by simp
next
  case (CustomSearch ov n)
  then show ?thesis
    using preserves_snd[OF keeps_frame[OF keeps_custom_search]] by simp
qed

lemma frame_perform_all: "frame s (perform_all calls s)"
  unfolding perform_all_def
proof (induction calls arbitrary: s)
  case Nil
  then show ?case by simp
next
  case (Cons c calls)
  have "frame s (perform c s)" by (rule frame_perform)
  moreover have "frame (perform c s) (fold perform calls (perform c s))" by (rule Cons.IH)
  ultimately show ?case by (auto intro: frame_trans)
qed

text \<open>
  C10. After any sequence of sampling calls, returned or raised, the generator map and
  the defaults map are what they were and every list object that existed has the elements
  it had, so every candidate list is unchanged: \<^verbatim>\<open>one_value_grid_search\<close> pops from a
  copy. (In the example the copy, at address 2, has lost the default.)
\<close>

theorem sampling_mutates_nothing:
  fixes s :: "('v, 'w) state"
  shows "hyperparams (perform_all calls s) = hyperparams s
    \<and> hyp_defaults (perform_all calls s) = hyp_defaults s
    \<and> (\<forall>a<next_addr s. lists (perform_all calls s) a = lists s a)
    \<and> (wf_state s \<longrightarrow>
         (\<forall>(h, g) \<in> set (hyperparams (perform_all calls s)). \<forall>a. g = Candidates a \<longrightarrow>
            lists (perform_all calls s) a = lists s a))"
proof -
  have f: "frame s (perform_all calls s)" by (rule frame_perform_all)
  then have a: "hyperparams (perform_all calls s) = hyperparams s"
    "hyp_defaults (perform_all calls s) = hyp_defaults s"
    "\<forall>a<next_addr s. lists (perform_all calls s) a = lists s a"
    by (simp_all add: frame_def)
  have "lists (perform_all calls s) b = lists s b"
    if "wf_state s" "(h, Candidates b) \<in> set (hyperparams (perform_all calls s))" for h b
  proof -
    from that a(1) have "b < next_addr s" unfolding wf_state_def by auto
    with a(3) show ?thesis by simp
  qed
  with a show ?thesis by auto
qed

theorem sampling_mutates_nothing_witness:
  "wf_state grid_example
   \<and> hyperparams (perform_all [OneValueGridSearch [''a'', ''b''], DefaultSearch 2,
        OneValueGridSearch [''b'']] grid_example) = hyperparams grid_example
   \<and> lists (perform_all [OneValueGridSearch [''a'', ''b''], DefaultSearch 2,
        OneValueGridSearch [''b'']] grid_example) 0 = [1, 2, 3]
   \<and> lists (perform_all [OneValueGridSearch [''a'', ''b''], DefaultSearch 2,
        OneValueGridSearch [''b'']] grid_example) 1 = [10, 20]
   \<and> lists (perform_all [OneValueGridSearch [''a'', ''b''], DefaultSearch 2,
        OneValueGridSearch [''b'']] grid_example) 2 = [2, 3]"
proof -
  have w: "wf_state grid_example" by (simp add: wf_state_def grid_example_def)
  have l: "lists grid_example 0 = [1, 2, 3]" "lists grid_example 1 = [10, 20]"
    "next_addr grid_example = 2"
    by (simp_all add: grid_example_def)
  have c: "lists (perform_all [OneValueGridSearch [''a'', ''b''], DefaultSearch 2,
        OneValueGridSearch [''b'']] grid_example) 2 = [2, 3]"
    by code_simp
  from sampling_mutates_nothing[of "[OneValueGridSearch [''a'', ''b''], DefaultSearch 2,
        OneValueGridSearch [''b'']]" grid_example] w l c
  show ?thesis by simp
qed

section \<open>One value grid search\<close>

lemma static_defaults_resolved:
  assumes "static_defaults s" "h \<in> fst ` set (hyperparams s)"
  shows "\<exists>d. resolved_default s h = Some d"
proof (cases "map_of (hyp_defaults s) h")
  case (Some v)
  then show ?thesis by (simp add: resolved_default_def)
next
  case None
  then have nodef: "h \<notin> fst ` set (hyp_defaults s)" by (simp add: map_of_eq_None_iff)
  from assms(2) obtain g where g: "map_of (hyperparams s) h = Some g"
    by (metis map_of_eq_None_iff not_None_eq)
  then have "(h, g) \<in> set (hyperparams s)" by (rule map_of_SomeD)
  with assms(1) nodef have
    "case g of Candidates a \<Rightarrow> lists s a \<noteq> [] | Factory f \<Rightarrow> False | FixedValue v \<Rightarrow> True"
    unfolding static_defaults_def by blast
  with None g show ?thesis
    by (cases g) (auto simp: resolved_default_def split: list.splits)
qed

lemma default_dict_static:
  assumes fr: "frame s t" and wf: "wf_state s" and st: "static_defaults s"
  shows "default_dict t = (Inr (dflt s), t)"
proof -
  have keys: "hyperparams t = hyperparams s" using fr by (simp add: frame_def)
  have "py_map (\<lambda>hyp_name. py_bind (choose_default hyp_name) (\<lambda>v. py_return (hyp_name, v)))
          (map fst (hyperparams s)) t
      = (Inr (map (\<lambda>h. (h, default_of s h)) (map fst (hyperparams s))), t)"
  proof (rule py_map_pure)
    fix h assume "h \<in> set (map fst (hyperparams s))"
    then have "h \<in> fst ` set (hyperparams s)" by simp
    from static_defaults_resolved[OF st this] obtain d where d: "resolved_default s h = Some d"
      by blast
    from choose_default_static[OF fr wf d] d
    show "py_bind (choose_default h) (\<lambda>v. py_return (h, v)) t = (Inr (h, default_of s h), t)"
      by (simp add: py_bind_def py_return_def default_of_def)
  qed
  then show ?thesis by (simp add: default_dict_def keys py_bind_def py_return_def dflt_def)
qed

lemma default_search_static:
  assumes fr: "frame s t" and wf: "wf_state s" and st: "static_defaults s"
  shows "default_search n t = (Inr (replicate (nat n) (dflt s)), t)"
proof -
  have "py_map (\<lambda>i. default_dict) (py_range n) t = (Inr (map (\<lambda>i. dflt s) (py_range n)), t)"
    by (rule py_map_pure) (rule default_dict_static[OF fr wf st])
  then show ?thesis by (simp add: default_search_def py_range_def map_replicate_const)
qed

lemma cand_Candidates: "map_of (hyperparams s) h = Some (Candidates a) \<Longrightarrow> cand s h = lists s a"
  by (simp add: cand_def)

lemma ndh_ok_step:
  assumes ok: "ndh_ok s t acc"
  shows "ndh_ok s (with_list t (non_defaults s h)) (setitem acc h (next_addr t))"
  unfolding ndh_ok_def
proof (intro allI impI)
  fix k l
  assume "map_of (setitem acc h (next_addr t)) k = Some l"
  then have c: "(k = h \<and> l = next_addr t) \<or> (k \<noteq> h \<and> map_of acc k = Some l)"
    by (auto simp: map_of_setitem split: if_splits)
  show "l < next_addr (with_list t (non_defaults s h))
      \<and> lists (with_list t (non_defaults s h)) l = non_defaults s k"
  proof (cases "k = h")
    case True
    with c show ?thesis by (auto simp: with_list_def)
  next
    case False
    with c have "map_of acc k = Some l" by simp
    with ok have "l < next_addr t" "lists t l = non_defaults s k" by (auto simp: ndh_ok_def)
    then show ?thesis by (simp add: with_list_def)
  qed
qed

lemma loop1_ok:
  fixes s t :: "('v, 'w) state"
  assumes wf: "wf_state s" and "frame s t" "all_lists s interests"
    "\<forall>h \<in> set interests. default_present s h" "ndh_ok s t acc"
  shows "\<exists>ndh t'. py_for interests non_default_step acc t = (Inr ndh, t')
      \<and> frame s t' \<and> ndh_ok s t' ndh \<and> ext t' = ext t \<and> warned t' = warned t
      \<and> (\<forall>h \<in> set interests. \<exists>l. map_of ndh h = Some l)
      \<and> (\<forall>h l. map_of acc h = Some l \<longrightarrow> (\<exists>l'. map_of ndh h = Some l'))"
  using assms(2-)
proof (induction interests arbitrary: acc t)
  case Nil
  then show ?case by (simp add: py_return_def)
next
  case (Cons h interests)
  from Cons.prems(2) obtain a where a: "map_of (hyperparams s) h = Some (Candidates a)"
    by (auto simp: all_lists_def)
  from Cons.prems(3) obtain d where d: "resolved_default s h = Some d" "d \<in> set (cand s h)"
    by (auto simp: default_present_def split: option.splits)
  let ?t1 = "with_list t (non_defaults s h)"
  let ?acc1 = "setitem acc h (next_addr t)"
  have step: "non_default_step h acc t = (Inr ?acc1, ?t1)"
    using non_default_step_cases[OF Cons.prems(1) wf a, of acc] d
    by (simp add: cand_Candidates[OF a] non_defaults_def default_of_def)
  have fr1: "frame s ?t1" using Cons.prems(1) by (rule frame_with_list)
  have ok1: "ndh_ok s ?t1 ?acc1" using Cons.prems(4) by (rule ndh_ok_step)
  have al: "all_lists s interests" using Cons.prems(2) by (simp add: all_lists_def)
  have pr: "\<forall>h \<in> set interests. default_present s h" using Cons.prems(3) by simp
  from Cons.IH[OF fr1 al pr ok1] obtain ndh t' where
    ih: "py_for interests non_default_step ?acc1 ?t1 = (Inr ndh, t')"
      "frame s t'" "ndh_ok s t' ndh" "ext t' = ext ?t1" "warned t' = warned ?t1"
      "\<forall>h \<in> set interests. \<exists>l. map_of ndh h = Some l"
      "\<forall>k l. map_of ?acc1 k = Some l \<longrightarrow> (\<exists>l'. map_of ndh k = Some l')"
    by blast
  have "py_for (h # interests) non_default_step acc t = (Inr ndh, t')"
    using step ih(1) by (simp add: py_bind_Inr)
  moreover have "ext t' = ext t" "warned t' = warned t"
    using ih(4,5) by (simp_all add: with_list_def)
  moreover have "\<forall>k \<in> set (h # interests). \<exists>l. map_of ndh k = Some l"
    using ih(6,7) by (auto simp: map_of_setitem)
  moreover have "\<forall>k l. map_of acc k = Some l \<longrightarrow> (\<exists>l'. map_of ndh k = Some l')"
    using ih(7) by (auto simp: map_of_setitem)
  ultimately show ?case using ih(2,3) by blast
qed


lemma fill_values:
  fixes u :: "('v, 'w) state" and vals :: "'v list"
  assumes "length mid = length vals"
  shows "py_for vals (\<lambda>value (result_search, search_i).
         py_bind (setitem_at result_search search_i h value) (\<lambda>result_search.
         py_return (result_search, search_i + 1))) (pre @ mid @ post, length pre) u
     = (Inr (pre @ map2 (\<lambda>d v. setitem d h v) mid vals @ post, length pre + length vals), u)"
  using assms
proof (induction vals arbitrary: pre mid)
  case Nil
  then show ?case by (simp add: py_return_def)
next
  case (Cons v vals)
  then obtain m mid' where mid: "mid = m # mid'" "length mid' = length vals"
    by (cases mid) auto
  let ?body = "\<lambda>value (result_search, search_i).
         py_bind (setitem_at result_search search_i h value) (\<lambda>result_search.
         py_return (result_search, search_i + 1))
           :: ((string \<times> 'v) list list \<times> nat, ('v, 'w) state) py"
  have step: "?body v (pre @ mid @ post, length pre) u
      = (Inr ((pre @ [setitem m h v]) @ mid' @ post, length (pre @ [setitem m h v])), u)"
    by (simp add: mid setitem_at_def py_bind_def py_return_def)
  have "py_for (v # vals) ?body (pre @ mid @ post, length pre) u
      = py_for vals ?body ((pre @ [setitem m h v]) @ mid' @ post, length (pre @ [setitem m h v])) u"
    using step by (simp add: py_bind_Inr)
  also have "\<dots> = (Inr ((pre @ [setitem m h v]) @ map2 (\<lambda>d v. setitem d h v) mid' vals @ post,
       length (pre @ [setitem m h v]) + length vals), u)"
    using mid(2) by (rule Cons.IH)
  finally show ?case by (simp add: mid)
qed

lemma fill_all:
  fixes u :: "('v, 'w) state"
  assumes "\<forall>h \<in> set interests. \<exists>l. map_of ndh h = Some l \<and> lists u l = vals h"
    and "length mid = length (concat (map (\<lambda>h. map (Pair h) (vals h)) interests))"
  shows "py_for interests (fill_step ndh) (pre @ mid @ post, length pre) u
     = (Inr (pre @ map2 (\<lambda>d (h, v). setitem d h v) mid
                (concat (map (\<lambda>h. map (Pair h) (vals h)) interests)) @ post,
             length pre + length (concat (map (\<lambda>h. map (Pair h) (vals h)) interests))), u)"
  using assms
proof (induction interests arbitrary: pre mid)
  case Nil
  then show ?case by (simp add: py_return_def)
next
  case (Cons h interests)
  let ?rest = "concat (map (\<lambda>h. map (Pair h) (vals h)) interests)"
  let ?k = "length (vals h)"
  let ?mid1 = "take ?k mid" and ?mid2 = "drop ?k mid"
  from Cons.prems(2) have len: "length mid = ?k + length ?rest" by simp
  then have l1: "length ?mid1 = length (vals h)" and l2: "length ?mid2 = length ?rest" by simp_all
  from Cons.prems(1) obtain l where l: "map_of ndh h = Some l" "lists u l = vals h" by auto
  have split: "pre @ mid @ post = pre @ ?mid1 @ (?mid2 @ post)" by simp
  let ?new = "map2 (\<lambda>d v. setitem d h v) ?mid1 (vals h)"
  have step: "fill_step ndh h (pre @ mid @ post, length pre) u
      = (Inr ((pre @ ?new) @ ?mid2 @ post, length (pre @ ?new)), u)"
    unfolding split fill_step_def
    using l fill_values[OF l1, of h pre "?mid2 @ post" u] len
    by (simp add: getitem_def py_bind_def py_return_def)
  have ih: "py_for interests (fill_step ndh) ((pre @ ?new) @ ?mid2 @ post, length (pre @ ?new)) u
     = (Inr ((pre @ ?new) @ map2 (\<lambda>d (h, v). setitem d h v) ?mid2 ?rest @ post,
             length (pre @ ?new) + length ?rest), u)"
    using Cons.prems(1) l2 by (intro Cons.IH) simp_all
  have z: "map2 (\<lambda>d (h, v). setitem d h v) mid (map (Pair h) (vals h) @ ?rest)
      = ?new @ map2 (\<lambda>d (h, v). setitem d h v) ?mid2 ?rest"
  proof -
    have "zip (?mid1 @ ?mid2) (map (Pair h) (vals h) @ ?rest)
        = zip ?mid1 (map (Pair h) (vals h)) @ zip ?mid2 ?rest"
      using l1 by (intro zip_append) simp
    then have "zip mid (map (Pair h) (vals h) @ ?rest)
        = zip ?mid1 (map (Pair h) (vals h)) @ zip ?mid2 ?rest"
      by simp
    moreover have "map (\<lambda>(d, (h, v)). setitem d h v) (zip ?mid1 (map (Pair h) (vals h))) = ?new"
      by (simp add: zip_map2 split_def)
    ultimately show ?thesis by simp
  qed
  have "py_for (h # interests) (fill_step ndh) (pre @ mid @ post, length pre) u
      = py_for interests (fill_step ndh) ((pre @ ?new) @ ?mid2 @ post, length (pre @ ?new)) u"
    using step by (simp add: py_bind_Inr)
  with ih z l1 show ?case by simp
qed

lemma py_map_length: "py_map f xs s = (Inr ys, t) \<Longrightarrow> length ys = length xs"
proof (induction xs arbitrary: s ys t)
  case Nil
  then show ?case by auto
next
  case (Cons x xs)
  from Cons.prems obtain y s1 where "f x s = (Inr y, s1)"
    and r: "py_bind (py_map f xs) (\<lambda>ys. py_return (y # ys)) s1 = (Inr ys, t)"
    unfolding py_map.simps py_bind_eq_Inr[of "f x"] by blast
  from r obtain zs s2 where z: "py_map f xs s1 = (Inr zs, s2)" and "py_return (y # zs) s2 = (Inr ys, t)"
    unfolding py_bind_eq_Inr[of "py_map f xs"] by blast
  with Cons.IH[OF z] show ?case by auto
qed

lemma default_present_length:
  assumes "default_present s h"
  shows "int (length (non_defaults s h)) = int (length (cand s h)) - 1"
proof -
  from assms have "default_of s h \<in> set (cand s h)"
    by (auto simp: default_present_def default_of_def split: option.splits)
  then have "length (non_defaults s h) = length (cand s h) - 1" "0 < length (cand s h)"
    by (auto simp: non_defaults_def length_remove1)
  then show ?thesis by arith
qed

lemma length_assignments:
  assumes "\<forall>h \<in> set interests. default_present s h"
  shows "int (length (assignments s interests)) = n_unique_tuples s interests - 1"
  using assms
proof (induction interests)
  case Nil
  then show ?case by (simp add: assignments_def n_unique_tuples_def)
next
  case (Cons h interests)
  then have "int (length (assignments s interests)) = n_unique_tuples s interests - 1" by simp
  moreover have "int (length (non_defaults s h)) = int (length (cand s h)) - 1"
    using Cons.prems by (simp add: default_present_length)
  ultimately show ?case by (simp add: assignments_def n_unique_tuples_def)
qed

lemma grid_run:
  fixes s :: "('v, 'w) state"
  assumes wf: "wf_state s" and al: "all_lists s interests"
    and pr: "\<forall>h \<in> set interests. default_present s h"
  shows "\<exists>s1. frame s s1 \<and> ext s1 = ext s \<and> warned s1 = warned s \<and>
     one_value_grid_search interests s =
       (case default_search (n_unique_tuples s interests) s1 of
          (Inl e, t) \<Rightarrow> (Inl e, t)
        | (Inr rs, t) \<Rightarrow>
            (Inr (hd rs # map2 (\<lambda>d (h, v). setitem d h v) (tl rs) (assignments s interests)), t))"
proof -
  let ?n = "n_unique_tuples s interests"
  have flags: "py_map (\<lambda>interest.
                py_bind (\<lambda>s. getitem (hyperparams s) interest s) (\<lambda>g. py_return (is_list g)))
              interests s = (Inr (map (\<lambda>h. True) interests), s)"
  proof (rule py_map_pure)
    fix h assume "h \<in> set interests"
    with al obtain a where "map_of (hyperparams s) h = Some (Candidates a)"
      by (auto simp: all_lists_def)
    then show "py_bind (\<lambda>s. getitem (hyperparams s) h s) (\<lambda>g. py_return (is_list g)) s = (Inr True, s)"
      by (simp add: py_bind_def getitem_def py_return_def)
  qed
  have lens: "py_map (\<lambda>interest. py_bind (\<lambda>s. getitem (hyperparams s) interest s) len)
                interests s = (Inr (map (\<lambda>h. int (length (cand s h))) interests), s)"
  proof (rule py_map_pure)
    fix h assume "h \<in> set interests"
    with al obtain a where "map_of (hyperparams s) h = Some (Candidates a)"
      by (auto simp: all_lists_def)
    then show "py_bind (\<lambda>s. getitem (hyperparams s) h s) len s = (Inr (int (length (cand s h))), s)"
      by (simp add: py_bind_def getitem_def py_return_def cand_def)
  qed
  have ok0: "ndh_ok s s []" by (simp add: ndh_ok_def)
  from loop1_ok[OF wf frame_refl al pr ok0] obtain ndh s1 where
    l1: "py_for interests non_default_step [] s = (Inr ndh, s1)" "frame s s1" "ndh_ok s s1 ndh"
      "ext s1 = ext s" "warned s1 = warned s" "\<forall>h \<in> set interests. \<exists>l. map_of ndh h = Some l"
    by blast
  define M1 where "M1 = py_map (\<lambda>interest.
                py_bind (\<lambda>s :: ('v, 'w) state. getitem (hyperparams s) interest s)
                  (\<lambda>g. py_return (is_list g))) interests"
  define M2 where "M2 = py_map (\<lambda>interest.
                py_bind (\<lambda>s :: ('v, 'w) state. getitem (hyperparams s) interest s) len) interests"
  define M3 where "M3 = py_for interests
      (non_default_step :: string \<Rightarrow> (string \<times> addr) list \<Rightarrow> ((string \<times> addr) list, ('v, 'w) state) py) []"
  define F3 where "F3 = (\<lambda>n non_default_hyperparams.
       py_bind (default_search n) (\<lambda>result_search.
       py_bind (py_for interests (fill_step non_default_hyperparams) (result_search, 1))
         (\<lambda>(result_search, search_i).
           if int search_i = n then py_return result_search
           else (py_raise (AssertionError []) :: ((string \<times> 'v) list list, ('v, 'w) state) py))))"
  have unf: "one_value_grid_search interests =
      py_bind M1 (\<lambda>flags. if \<not> list_all id flags then py_raise (AssertionError [])
        else py_bind M2 (\<lambda>lens. py_bind M3 (F3 (sum_list lens + 1 - int (length interests)))))"
    unfolding one_value_grid_search_def M1_def M2_def M3_def F3_def Let_def ..
  have f1: "M1 s = (Inr (map (\<lambda>h. True) interests), s)" using flags by (simp add: M1_def)
  have f2: "M2 s = (Inr (map (\<lambda>h. int (length (cand s h))) interests), s)"
    using lens by (simp add: M2_def)
  have f3: "M3 s = (Inr ndh, s1)" using l1(1) by (simp add: M3_def)
  have "one_value_grid_search interests s =
      py_bind M2 (\<lambda>lens. py_bind M3 (F3 (sum_list lens + 1 - int (length interests)))) s"
    unfolding unf by (subst py_bind_Inr[of M1 s _ s, OF f1]) (simp add: list_all_iff)
  also have "\<dots> = py_bind M3 (F3 ?n) s"
    by (subst py_bind_Inr[of M2 s _ s, OF f2]) (simp add: n_unique_tuples_def)
  also have "\<dots> = F3 ?n ndh s1"
    by (rule py_bind_Inr[of M3 s _ s1, OF f3])
  finally have "one_value_grid_search interests s = F3 ?n ndh s1" .
  then have head: "one_value_grid_search interests s =
       py_bind (default_search ?n) (\<lambda>result_search.
       py_bind (py_for interests (fill_step ndh) (result_search, 1))
         (\<lambda>(result_search, search_i).
           if int search_i = ?n then py_return result_search
           else py_raise (AssertionError []))) s1"
    by (simp add: F3_def)
  obtain r s2 where ds: "default_search ?n s1 = (r, s2)" by (cases "default_search ?n s1")
  have "one_value_grid_search interests s =
       (case (r, s2) of
          (Inl e, t) \<Rightarrow> (Inl e, t)
        | (Inr rs, t) \<Rightarrow>
            (Inr (hd rs # map2 (\<lambda>d (h, v). setitem d h v) (tl rs) (assignments s interests)), t))"
  proof (cases r)
    case (Inl e)
    with ds head show ?thesis by (simp add: py_bind_Inl)
  next
    case (Inr rs)
    from ds Inr have "length rs = length (py_range ?n)"
      unfolding default_search_def by (auto dest: py_map_length)
    moreover have na: "int (length (assignments s interests)) = ?n - 1"
      using pr by (rule length_assignments)
    ultimately have len: "length rs = Suc (length (assignments s interests))"
      by (simp add: py_range_def)
    then obtain d mid where rs: "rs = d # mid" "length mid = length (assignments s interests)"
      by (cases rs) auto
    from preservesD[OF keeps_default_search ds] have sc: "lists s2 = lists s1"
      by (simp add: same_config_def)
    have vals: "\<forall>h \<in> set interests. \<exists>l. map_of ndh h = Some l \<and> lists s2 l = non_defaults s h"
      using l1(3,6) sc by (auto simp: ndh_ok_def)
    have "py_for interests (fill_step ndh) ([d] @ mid @ [], length [d]) s2
     = (Inr ([d] @ map2 (\<lambda>d (h, v). setitem d h v) mid
                (concat (map (\<lambda>h. map (Pair h) (non_defaults s h)) interests)) @ [],
             length [d] + length (concat (map (\<lambda>h. map (Pair h) (non_defaults s h)) interests))), s2)"
      using vals rs(2) by (intro fill_all) (simp_all add: assignments_def)
    then have fill: "py_for interests (fill_step ndh) (rs, 1) s2
     = (Inr (d # map2 (\<lambda>d (h, v). setitem d h v) mid (assignments s interests),
             Suc (length (assignments s interests))), s2)"
      by (simp add: rs assignments_def)
    have "int (Suc (length (assignments s interests))) = ?n" using na by simp
    with head ds Inr fill rs show ?thesis
      by (simp add: py_bind_Inr py_return_def)
  qed
  with ds l1(2,4,5) show ?thesis by auto
qed

lemma map_of_fold_setitem:
  assumes "\<forall>(k, v) \<in> set pairs. v = f k"
  shows "map_of (fold (\<lambda>(k, v) d. setitem d k v) pairs d0) k
     = (if k \<in> fst ` set pairs then Some (f k) else map_of d0 k)"
  using assms
proof (induction pairs arbitrary: d0)
  case Nil
  then show ?case by simp
next
  case (Cons p pairs)
  obtain k' v' where p: "p = (k', v')" by (cases p)
  with Cons.prems have v': "v' = f k'" and rest: "\<forall>(k, v) \<in> set pairs. v = f k" by auto
  have "map_of (fold (\<lambda>(k, v) d. setitem d k v) (p # pairs) d0) k
      = (if k \<in> fst ` set pairs then Some (f k) else map_of (setitem d0 k' v') k)"
    using Cons.IH[OF rest, of "setitem d0 k' v'"] p by simp
  then show ?case using p v' by (auto simp: map_of_setitem)
qed

lemma map_of_dflt:
  assumes "h \<in> fst ` set (hyperparams s)"
  shows "map_of (dflt s) h = Some (default_of s h)"
proof -
  have "map_of (fold (\<lambda>(k, v) d. setitem d k v)
          (map (\<lambda>h. (h, default_of s h)) (map fst (hyperparams s))) []) h
     = (if h \<in> fst ` set (map (\<lambda>h. (h, default_of s h)) (map fst (hyperparams s)))
        then Some (default_of s h) else map_of [] h)"
    by (rule map_of_fold_setitem) auto
  moreover have "h \<in> fst ` set (map (\<lambda>h. (h, default_of s h)) (map fst (hyperparams s)))"
    using assms by (force simp: image_iff)
  ultimately show ?thesis by (simp add: dflt_def dict_def)
qed

lemma keys_dflt: "fst ` set (dflt s) = fst ` set (hyperparams s)"
  unfolding dflt_def keys_dict by (force simp: image_iff)

lemma count_one_remove1: "count_list xs d = 1 \<Longrightarrow> d \<notin> set (remove1 d xs)"
proof (induction xs)
  case Nil
  then show ?case by simp
next
  case (Cons x xs)
  show ?case
  proof (cases "x = d")
    case True
    with Cons.prems have "count_list xs d = 0" by simp
    with True show ?thesis by (simp add: count_list_0_iff)
  next
    case False
    with Cons show ?thesis by simp
  qed
qed

lemma map2_replicate: "map2 f (replicate (length ys) x) ys = map (f x) ys"
  by (induction ys) simp_all

lemma differs_setitem:
  assumes "map_of d h = Some x" "v \<noteq> x"
  shows "differs_only_at d (setitem d h v) h"
proof -
  from assms(1) have "h \<in> set (map fst d)"
    by (metis map_of_eq_None_iff option.distinct(1) set_map)
  then have "map fst (setitem d h v) = map fst d" by (simp add: map_fst_setitem)
  moreover have "\<forall>k. map_of (setitem d h v) k \<noteq> map_of d k \<longleftrightarrow> k = h"
    using assms by (auto simp: map_of_setitem)
  ultimately show ?thesis by (simp add: differs_only_at_def)
qed

lemma all_lists_keys: "all_lists s interests \<Longrightarrow> set interests \<subseteq> fst ` set (hyperparams s)"
proof
  fix h assume "all_lists s interests" "h \<in> set interests"
  then obtain a where "map_of (hyperparams s) h = Some (Candidates a)"
    by (auto simp: all_lists_def)
  then have "(h, Candidates a) \<in> set (hyperparams s)" by (rule map_of_SomeD)
  then show "h \<in> fst ` set (hyperparams s)" by force
qed

lemma grid_exact:
  fixes s :: "('v, 'w) state"
  assumes wf: "wf_state s" and st: "static_defaults s" and al: "all_lists s interests"
    and pr: "\<forall>h \<in> set interests. default_present s h"
  shows "\<exists>s1. frame s s1 \<and> ext s1 = ext s \<and> warned s1 = warned s \<and>
     one_value_grid_search interests s = (Inr (grid s interests), s1)"
proof -
  from grid_run[OF wf al pr] obtain s1 where
    s1: "frame s s1" "ext s1 = ext s" "warned s1 = warned s"
    "one_value_grid_search interests s =
       (case default_search (n_unique_tuples s interests) s1 of
          (Inl e, t) \<Rightarrow> (Inl e, t)
        | (Inr rs, t) \<Rightarrow>
            (Inr (hd rs # map2 (\<lambda>d (h, v). setitem d h v) (tl rs) (assignments s interests)), t))"
    by blast
  have n: "nat (n_unique_tuples s interests) = Suc (length (assignments s interests))"
    using length_assignments[OF pr] by simp
  have ds: "default_search (n_unique_tuples s interests) s1
      = (Inr (replicate (Suc (length (assignments s interests))) (dflt s)), s1)"
    using default_search_static[OF s1(1) wf st, of "n_unique_tuples s interests"] n by simp
  have "map2 (\<lambda>d (h, v). setitem d h v) (replicate (length (assignments s interests)) (dflt s))
          (assignments s interests)
      = map (\<lambda>(h, v). setitem (dflt s) h v) (assignments s interests)"
    by (rule map2_replicate)
  with s1(4) ds have "one_value_grid_search interests s = (Inr (grid s interests), s1)"
    by (simp add: grid_def)
  with s1(1-3) show ?thesis by blast
qed

lemma assignments_mem:
  "(h, v) \<in> set (assignments s interests) \<Longrightarrow> h \<in> set interests \<and> v \<in> set (non_defaults s h)"
  by (auto simp: assignments_def)

text \<open>
  C3, as amended. Let the interests name candidate lists in each of which the resolved
  default occurs exactly once, let no hyperparameter be a callable without a default, and
  let no candidate list without a default override be empty. Then
  \<^verbatim>\<open>one_value_grid_search\<close> returns; the number of dictionaries is the sum of the lengths of
  the named lists, minus the number of interests, plus one; the first dictionary is the
  default dictionary; every other one differs from it in exactly one key, an interest,
  whose value is one of its candidates and is not its default.
\<close>

theorem one_value_grid_search_result:
  fixes s :: "('v, 'w) state"
  assumes wf: "wf_state s" and st: "static_defaults s" and al: "all_lists s interests"
    and once: "\<forall>h \<in> set interests. count_list (cand s h) (default_of s h) = 1"
  shows "\<exists>out s'. one_value_grid_search interests s = (Inr out, s')
     \<and> default_dict s = (Inr (dflt s), s)
     \<and> int (length out)
         = sum_list (map (\<lambda>h. int (length (cand s h))) interests) - int (length interests) + 1
     \<and> out ! 0 = dflt s
     \<and> (\<forall>i. 0 < i \<and> i < length out \<longrightarrow>
          (\<exists>h \<in> set interests. \<exists>v \<in> set (cand s h). v \<noteq> default_of s h
              \<and> map_of (dflt s) h = Some (default_of s h)
              \<and> map_of (out ! i) h = Some v
              \<and> differs_only_at (dflt s) (out ! i) h))
     \<and> out = grid s interests"
proof -
  have keys: "set interests \<subseteq> fst ` set (hyperparams s)" using al by (rule all_lists_keys)
  have pr: "\<forall>h \<in> set interests. default_present s h"
  proof
    fix h assume h: "h \<in> set interests"
    with keys st obtain d where d: "resolved_default s h = Some d"
      using static_defaults_resolved by blast
    from once h have "count_list (cand s h) (default_of s h) \<noteq> 0" by simp
    then have "default_of s h \<in> set (cand s h)" by (simp add: count_list_0_iff)
    with d show "default_present s h" by (simp add: default_present_def default_of_def)
  qed
  from grid_exact[OF wf st al pr] obtain s1 where
    run: "one_value_grid_search interests s = (Inr (grid s interests), s1)" by blast
  have dd: "default_dict s = (Inr (dflt s), s)"
    by (rule default_dict_static[OF frame_refl wf st])
  have len: "int (length (grid s interests))
      = sum_list (map (\<lambda>h. int (length (cand s h))) interests) - int (length interests) + 1"
    using length_assignments[OF pr] by (simp add: grid_def n_unique_tuples_def)
  have others: "\<exists>h \<in> set interests. \<exists>v \<in> set (cand s h). v \<noteq> default_of s h
              \<and> map_of (dflt s) h = Some (default_of s h)
              \<and> map_of (grid s interests ! i) h = Some v
              \<and> differs_only_at (dflt s) (grid s interests ! i) h"
    if i: "0 < i" "i < length (grid s interests)" for i
  proof -
    from i obtain j where j: "i = Suc j" "j < length (assignments s interests)"
      by (cases i) (auto simp: grid_def)
    obtain h v where hv: "assignments s interests ! j = (h, v)"
      by (cases "assignments s interests ! j")
    with j(2) have "(h, v) \<in> set (assignments s interests)" by (metis nth_mem)
    then have h: "h \<in> set interests" and v: "v \<in> set (non_defaults s h)"
      by (auto dest: assignments_mem)
    from v have vc: "v \<in> set (cand s h)"
      unfolding non_defaults_def using set_remove1_subset by fastforce
    from once h have "default_of s h \<notin> set (non_defaults s h)"
      unfolding non_defaults_def by (intro count_one_remove1) simp
    with v have ne: "v \<noteq> default_of s h" by auto
    from h keys have md: "map_of (dflt s) h = Some (default_of s h)"
      by (intro map_of_dflt) auto
    have gi: "grid s interests ! i = setitem (dflt s) h v"
      using j hv by (simp add: grid_def)
    have "map_of (grid s interests ! i) h = Some v" by (simp add: gi map_of_setitem)
    moreover have "differs_only_at (dflt s) (grid s interests ! i) h"
      unfolding gi using md ne by (rule differs_setitem)
    ultimately show ?thesis using h vc ne md by blast
  qed
  have "grid s interests ! 0 = dflt s" by (simp add: grid_def)
  with run dd len others show ?thesis by blast
qed

theorem one_value_grid_search_result_witness:
  "wf_state grid_example \<and> static_defaults grid_example \<and> all_lists grid_example [''a'', ''b'']
   \<and> count_list (cand grid_example ''a'') (default_of grid_example ''a'') = 1
   \<and> count_list (cand grid_example ''b'') (default_of grid_example ''b'') = 1
   \<and> (\<exists>out. fst (one_value_grid_search [''a'', ''b''] grid_example) = Inr out
         \<and> length out = 4 \<and> out ! 0 = dflt grid_example)
   \<and> fst (one_value_grid_search [''a'', ''b''] grid_example)
       = Inr [[(''a'', 1), (''b'', 10)], [(''a'', 2), (''b'', 10)],
              [(''a'', 3), (''b'', 10)], [(''a'', 1), (''b'', 20)]]"
proof -
  have w: "wf_state grid_example" by (simp add: wf_state_def grid_example_def)
  have st: "static_defaults grid_example" by (simp add: static_defaults_def grid_example_def)
  have al: "all_lists grid_example [''a'', ''b'']" by (simp add: all_lists_def grid_example_def)
  have ca: "count_list (cand grid_example ''a'') (default_of grid_example ''a'') = 1"
    and cb: "count_list (cand grid_example ''b'') (default_of grid_example ''b'') = 1"
    by (simp_all add: cand_def default_of_def resolved_default_def grid_example_def)
  then have once: "\<forall>h \<in> set [''a'', ''b''].
      count_list (cand grid_example h) (default_of grid_example h) = 1" by simp
  have ev: "fst (one_value_grid_search [''a'', ''b''] grid_example)
       = Inr [[(''a'', 1), (''b'', 10)], [(''a'', 2), (''b'', 10)],
              [(''a'', 3), (''b'', 10)], [(''a'', 1), (''b'', 20)]]"
    by code_simp
  from one_value_grid_search_result[OF w st al once] obtain out s' where
    out: "one_value_grid_search [''a'', ''b''] grid_example = (Inr out, s')" "out ! 0 = dflt grid_example"
    by blast
  with ev have "length out = 4" by auto
  with out w st al ca cb ev show ?thesis by auto
qed

text \<open>
  The claim as stated fails: here the named list holds its default once and nothing is a
  callable, but the default dictionary cannot be built, since \<^verbatim>\<open>b\<close> has no candidate.
\<close>

theorem one_value_grid_search_result_counterexample:
  "wf_state empty_other_example \<and> all_lists empty_other_example [''a'']
   \<and> resolved_default empty_other_example ''a'' = Some 1
   \<and> count_list (cand empty_other_example ''a'') 1 = 1
   \<and> fst (one_value_grid_search [''a''] empty_other_example) = Inl IndexError"
proof -
  have "fst (one_value_grid_search [''a''] empty_other_example) = Inl IndexError"
    by code_simp
  then show ?thesis
    by (simp add: wf_state_def all_lists_def resolved_default_def cand_def empty_other_example_def)
qed













end
